theory Spec2Isabelle
  imports Complex_Main "HOL-Library.Char_ord" "HOL-Library.List_Lexorder"
begin

section \<open>Gap-filling imputation of hourly weather series (scripts/impute.py)\<close>

text \<open>
  A shallow embedding of \<^verbatim>\<open>find_gaps\<close>, \<^verbatim>\<open>build_diurnal_profiles\<close>,
  \<^verbatim>\<open>impute_gap_strategy_b\<close>, \<^verbatim>\<open>impute_station\<close> and the imputation loop of
  \<^verbatim>\<open>main\<close>.

  Conventions of the embedding:
  \<^item> a float cell is a \<open>real option\<close>: \<open>None\<close> is NaN (the missing marker), \<open>Some x\<close> a
    valid number. Arithmetic is exact real arithmetic; the rounding of IEEE doubles and
    infinities are not modelled. NaN propagates through \<open>+\<close> and \<open>np.clip\<close>, as \<open>None\<close>
    does through \<open>map_option\<close>;
  \<^item> a data frame is the list of its rows; a row is a record of the columns the
    imputation reads or writes (any further column lives in the record's extension);
  \<^item> an index error of pandas or of a Python list is the value \<open>Inl IndexError\<close>.
\<close>

subsection \<open>Data model\<close>

datatype var = Temperature | Rh | Wind_speed

text \<open>\<^verbatim>\<open>IMPUTE_VARS = ["temperature", "rh", "wind_speed"]\<close>\<close>

definition IMPUTE_VARS :: "var list" where
  "IMPUTE_VARS = [Temperature, Rh, Wind_speed]"

fun var_name :: "var \<Rightarrow> string" where
  "var_name Temperature = ''temperature''"
| "var_name Rh = ''rh''"
| "var_name Wind_speed = ''wind_speed''"

record row =
  station :: string
  date :: int
  month :: nat
  hour :: nat
  temperature :: "real option"
  rh :: "real option"
  wind_speed :: "real option"

text \<open>\<^verbatim>\<open>df[var]\<close> at one row, and the write to that column at one row.\<close>

fun col :: "var \<Rightarrow> 'a row_scheme \<Rightarrow> real option" where
  "col Temperature r = temperature r"
| "col Rh r = rh r"
| "col Wind_speed r = wind_speed r"

fun set_col :: "var \<Rightarrow> real option \<Rightarrow> 'a row_scheme \<Rightarrow> 'a row_scheme" where
  "set_col Temperature v r = r\<lparr>temperature := v\<rparr>"
| "set_col Rh v r = r\<lparr>rh := v\<rparr>"
| "set_col Wind_speed v r = r\<lparr>wind_speed := v\<rparr>"

datatype error = IndexError | ValueError

text \<open>The profile of a variable: \<^verbatim>\<open>profiles[var].get((station, month, hour), np.nan)\<close>.\<close>

type_synonym profiles = "var \<Rightarrow> string \<times> nat \<times> nat \<Rightarrow> real option"

subsection \<open>numpy helpers\<close>

text \<open>
  \<^verbatim>\<open>np.linspace(start, stop, num)\<close>: \<open>num\<close> evenly spaced samples over the closed interval,
  \<open>start + i * (stop - start) / (num - 1)\<close>; a single sample is \<open>start\<close>.
\<close>

definition linspace :: "real \<Rightarrow> real \<Rightarrow> nat \<Rightarrow> real list" where
  "linspace start stop num =
     (if num = 1 then [start]
      else map (\<lambda>i. start + real i * ((stop - start) / real (num - 1))) [0..<num])"

text \<open>
  The bounds enforcement both strategies end with:
  \<^verbatim>\<open>if var == "rh": np.clip(x, 0, 100) elif var == "wind_speed": np.clip(x, 0, None)\<close>.
\<close>

definition enforce_bounds :: "var \<Rightarrow> real \<Rightarrow> real" where
  "enforce_bounds var x =
     (if var = Rh then min (max x 0) 100
      else if var = Wind_speed then max x 0
      else x)"

text \<open>\<^verbatim>\<open>np.all(np.isnan(xs))\<close>\<close>

definition all_isnan :: "real option list \<Rightarrow> bool" where
  "all_isnan xs = list_all (\<lambda>v. v = None) xs"

subsection \<open>find_gaps\<close>

text \<open>The inner loop \<^verbatim>\<open>while i < n and is_missing[i]: i += 1\<close>; it returns the final \<open>i\<close>.\<close>

function find_gaps_run :: "bool list \<Rightarrow> nat \<Rightarrow> nat" where
  "find_gaps_run is_missing i =
     (if i < length is_missing \<and> is_missing ! i then find_gaps_run is_missing (i + 1) else i)"
  by pat_completeness auto
termination
  by (relation "measure (\<lambda>(m, i). length m - i)") auto

declare find_gaps_run.simps [simp del]

text \<open>The outer loop \<^verbatim>\<open>while i < n\<close>, with the list \<open>gaps\<close> it appends to.\<close>

function find_gaps_loop :: "bool list \<Rightarrow> nat \<Rightarrow> (nat \<times> nat) list \<Rightarrow> (nat \<times> nat) list" where
  "find_gaps_loop is_missing i gaps =
     (if i < length is_missing then
        (if is_missing ! i then
           find_gaps_loop is_missing (find_gaps_run is_missing i)
             (gaps @ [(i, find_gaps_run is_missing i - i)])
         else find_gaps_loop is_missing (i + 1) gaps)
      else gaps)"
  by pat_completeness auto
termination
proof (relation "measure (\<lambda>(m, i, gaps). length m - i)")
  have ge: "i \<le> find_gaps_run m i" for m i
  proof (induction m i rule: find_gaps_run.induct)
    case (1 m i)
    then show ?case
      by (subst find_gaps_run.simps) (auto simp: Suc_leD)
  qed
  fix is_missing :: "bool list" and i :: nat and gaps :: "(nat \<times> nat) list"
  assume "i < length is_missing" and "is_missing ! i"
  then have "i < find_gaps_run is_missing i"
    using ge [of "i + 1" is_missing] by (subst find_gaps_run.simps) simp
  with \<open>i < length is_missing\<close>
  show "((is_missing, find_gaps_run is_missing i, gaps @ [(i, find_gaps_run is_missing i - i)]),
          (is_missing, i, gaps)) \<in> measure (\<lambda>(m, i, gaps). length m - i)"
    by (simp add: diff_less_mono2)
qed auto

declare find_gaps_loop.simps [simp del]

definition find_gaps :: "bool list \<Rightarrow> (nat \<times> nat) list" where
  "find_gaps is_missing = find_gaps_loop is_missing 0 []"

subsection \<open>build_diurnal_profiles\<close>

text \<open>
  \<^verbatim>\<open>df.groupby(["station", "month", "hour"])[var].mean()\<close>: the mean of a group skips NaN,
  and is NaN when the group has no valid value; a key with no row at all is absent
  from the series, and \<^verbatim>\<open>.get\<close> answers NaN for it too.
\<close>

definition group_values :: "var \<Rightarrow> string \<times> nat \<times> nat \<Rightarrow> row list \<Rightarrow> real list" where
  "group_values var key df =
     List.map_filter (col var) (filter (\<lambda>r. (station r, month r, hour r) = key) df)"

definition mean :: "real list \<Rightarrow> real option" where
  "mean xs = (if xs = [] then None else Some (sum_list xs / real (length xs)))"

definition build_diurnal_profiles :: "row list \<Rightarrow> profiles" where
  "build_diurnal_profiles df = (\<lambda>var key. mean (group_values var key df))"

subsection \<open>impute_gap_strategy_b\<close>

text \<open>\<^verbatim>\<open>x - y if (not isnan(x) and not isnan(y)) else nan\<close>\<close>

fun offset_of :: "real option \<Rightarrow> real option \<Rightarrow> real option" where
  "offset_of (Some v) (Some p) = Some (v - p)"
| "offset_of _ _ = None"

text \<open>The \<^verbatim>\<open>if/elif/elif/else\<close> chain that blends the offsets over the gap.\<close>

fun blend_offsets :: "real option \<Rightarrow> real option \<Rightarrow> nat \<Rightarrow> real list" where
  "blend_offsets (Some before_offset) (Some after_offset) gap_len =
     map (\<lambda>w. w * before_offset + (1 - w) * after_offset) (linspace 1 0 gap_len)"
| "blend_offsets (Some before_offset) None gap_len = replicate gap_len before_offset"
| "blend_offsets None (Some after_offset) gap_len = replicate gap_len after_offset"
| "blend_offsets None None gap_len = replicate gap_len 0"

definition impute_gap_strategy_b ::
    "row list \<Rightarrow> nat list \<Rightarrow> var \<Rightarrow> profiles \<Rightarrow> error + real option list" where
  "impute_gap_strategy_b df_station indices var profiles =
     (if df_station = [] \<or> (\<exists>i \<in> set indices. length df_station \<le> i) then Inl IndexError
      else
        let stn = station (df_station ! 0);
            months = map (\<lambda>i. month (df_station ! i)) indices;
            hours = map (\<lambda>i. hour (df_station ! i)) indices;
            gap_len = length indices;
            profile_vals = map (\<lambda>(m, h). profiles var (stn, m, h)) (zip months hours)
        in
          if all_isnan profile_vals then Inr (replicate gap_len None)
          else
            let first_idx = hd indices;
                last_idx = last indices;
                col_values = map (col var) df_station;
                before_val = (if first_idx > 0 then col_values ! (first_idx - 1) else None);
                after_val =
                  (if last_idx + 1 < length col_values then col_values ! (last_idx + 1) else None);
                before_profile =
                  (if before_val \<noteq> None \<and> first_idx > 0 then
                     (let prev_row = df_station ! (first_idx - 1)
                      in profiles var (stn, month prev_row, hour prev_row))
                   else None);
                after_profile =
                  (if after_val \<noteq> None \<and> last_idx + 1 < length col_values then
                     (let next_row = df_station ! (last_idx + 1)
                      in profiles var (stn, month next_row, hour next_row))
                   else None);
                before_offset = offset_of before_val before_profile;
                after_offset = offset_of after_val after_profile;
                offsets = blend_offsets before_offset after_offset gap_len;
                result = map (\<lambda>(p, off). map_option (\<lambda>x. x + off) p) (zip profile_vals offsets)
            in Inr (map (map_option (enforce_bounds var)) result))"

subsection \<open>impute_station\<close>

text \<open>
  \<^verbatim>\<open>df_station.iloc[indices, col] = values\<close>: an index outside the frame raises
  IndexError, a length mismatch ValueError; nothing is written then.
\<close>

definition iloc_assign ::
    "nat list \<Rightarrow> var \<Rightarrow> real option list \<Rightarrow> row list \<Rightarrow> error + row list" where
  "iloc_assign indices var vals df =
     (if \<exists>i \<in> set indices. length df \<le> i then Inl IndexError
      else if length vals \<noteq> length indices then Inl ValueError
      else Inr (fold (\<lambda>(i, v) d. d[i := set_col var v (d ! i)]) (zip indices vals) df))"

text \<open>\<^verbatim>\<open>df_station[var].iloc[i]\<close>\<close>

definition iloc :: "row list \<Rightarrow> var \<Rightarrow> nat \<Rightarrow> error + real option" where
  "iloc df var i = (if i < length df then Inr (col var (df ! i)) else Inl IndexError)"

text \<open>
  The loop \<^verbatim>\<open>for idx in indices\<close> that records the method: the tag is appended after a
  comma to a non-empty entry, and stored as it is in an empty one. The indices were
  written to the frame just before, and \<open>methods\<close> has one entry per row of the frame.
\<close>

definition record_method :: "var \<Rightarrow> string \<Rightarrow> nat list \<Rightarrow> string list \<Rightarrow> string list" where
  "record_method var strategy indices methods =
     fold (\<lambda>idx ms.
            let tag = var_name var @ '':'' @ strategy
            in ms[idx := (if ms ! idx \<noteq> [] then ms ! idx @ '','' @ tag else tag)])
          indices methods"

text \<open>The interpolation of Strategy A; \<open>None\<close> is the \<^verbatim>\<open>continue\<close> of the last branch.\<close>

fun strategy_a_interp :: "real option \<Rightarrow> real option \<Rightarrow> nat \<Rightarrow> real list option" where
  "strategy_a_interp (Some before_val) (Some after_val) len =
     Some (butlast (tl (linspace before_val after_val (len + 2))))"
| "strategy_a_interp (Some before_val) None len = Some (replicate len before_val)"
| "strategy_a_interp None (Some after_val) len = Some (replicate len after_val)"
| "strategy_a_interp None None len = None"

text \<open>
  The body of \<^verbatim>\<open>for start, length in gaps\<close>, on the state (frame, methods). A
  \<^verbatim>\<open>continue\<close> returns the state unchanged.
\<close>

definition impute_gap ::
    "var \<Rightarrow> profiles \<Rightarrow> nat \<Rightarrow> nat \<times> nat \<Rightarrow> row list \<times> string list
      \<Rightarrow> error + row list \<times> string list" where
  "impute_gap var profiles n gap st =
     (case gap of (start, len) \<Rightarrow>
      case st of (df_station, methods) \<Rightarrow>
        if len > 24 then Inr st
        else
          let indices = [start..<start + len] in
          if len \<le> 2 then
            (case (if start > 0 then iloc df_station var (start - 1) else Inr None) of
               Inl e \<Rightarrow> Inl e
             | Inr before_val \<Rightarrow>
            (case (if start + len < n then iloc df_station var (start + len) else Inr None) of
               Inl e \<Rightarrow> Inl e
             | Inr after_val \<Rightarrow>
            (case strategy_a_interp before_val after_val len of
               None \<Rightarrow> Inr st
             | Some interp \<Rightarrow>
            (case iloc_assign indices var (map (\<lambda>x. Some (enforce_bounds var x)) interp)
                    df_station of
               Inl e \<Rightarrow> Inl e
             | Inr df' \<Rightarrow> Inr (df', record_method var ''A'' indices methods)))))
          else
            (case impute_gap_strategy_b df_station indices var profiles of
               Inl e \<Rightarrow> Inl e
             | Inr filled \<Rightarrow>
                 if all_isnan filled then Inr st
                 else
                   (case iloc_assign indices var filled df_station of
                      Inl e \<Rightarrow> Inl e
                    | Inr df' \<Rightarrow> Inr (df', record_method var ''B'' indices methods))))"

text \<open>\<^verbatim>\<open>for start, length in gaps\<close>: the first error ends the loop.\<close>

fun impute_gaps ::
    "var \<Rightarrow> profiles \<Rightarrow> nat \<Rightarrow> (nat \<times> nat) list \<Rightarrow> row list \<times> string list
      \<Rightarrow> error + row list \<times> string list" where
  "impute_gaps var profiles n [] st = Inr st"
| "impute_gaps var profiles n (gap # gaps) st =
     (case impute_gap var profiles n gap st of
        Inl e \<Rightarrow> Inl e
      | Inr st' \<Rightarrow> impute_gaps var profiles n gaps st')"

text \<open>
  The body of \<^verbatim>\<open>for var in IMPUTE_VARS\<close>: the missing_mask and the gaps are computed once, from
  the frame as it is when the variable's turn comes.
\<close>

definition impute_var ::
    "profiles \<Rightarrow> nat \<Rightarrow> var \<Rightarrow> row list \<times> string list \<Rightarrow> error + row list \<times> string list" where
  "impute_var profiles n var st =
     (let is_missing = map (\<lambda>r. col var r = None) (fst st);
          gaps = find_gaps is_missing
      in impute_gaps var profiles n gaps st)"

fun impute_vars ::
    "profiles \<Rightarrow> nat \<Rightarrow> var list \<Rightarrow> row list \<times> string list \<Rightarrow> error + row list \<times> string list" where
  "impute_vars profiles n [] st = Inr st"
| "impute_vars profiles n (var # vars) st =
     (case impute_var profiles n var st of
        Inl e \<Rightarrow> Inl e
      | Inr st' \<Rightarrow> impute_vars profiles n vars st')"

text \<open>
  \<^verbatim>\<open>impute_station\<close> returns the frame and its new column \<^verbatim>\<open>impute_method\<close>, here the
  pair of the rows and the list \<open>methods\<close>.
\<close>

definition impute_station :: "row list \<Rightarrow> profiles \<Rightarrow> error + row list \<times> string list" where
  "impute_station df_station profiles =
     (let n = length df_station;
          methods = replicate n []
      in impute_vars profiles n IMPUTE_VARS (df_station, methods))"

subsection \<open>The imputation loop of main\<close>

text \<open>
  \<^verbatim>\<open>main\<close> builds the profiles once, from the frame as loaded, then imputes the rows of
  each station with them, in the order of \<^verbatim>\<open>sorted(df["station"].unique())\<close>, and collects
  the frames in \<open>results\<close>. Reading the file, the printed summary and the writing of
  the output are not part of the embedding.
\<close>

fun main_loop ::
    "profiles \<Rightarrow> row list \<Rightarrow> string list \<Rightarrow> (row list \<times> string list) list
      \<Rightarrow> error + (row list \<times> string list) list" where
  "main_loop profiles df [] results = Inr results"
| "main_loop profiles df (st # stations) results =
     (case impute_station (filter (\<lambda>r. station r = st) df) profiles of
        Inl e \<Rightarrow> Inl e
      | Inr df_st \<Rightarrow> main_loop profiles df stations (results @ [df_st]))"

definition main :: "row list \<Rightarrow> error + (row list \<times> string list) list" where
  "main df =
     (let profiles = build_diurnal_profiles df;
          stations = sort (remdups (map station df))
      in main_loop profiles df stations [])"

section \<open>Notions used to state and prove the properties\<close>

text \<open>
  A maximal run of \<open>True\<close> in a mask: \<open>l\<close> positions from \<open>s\<close> on, all \<open>True\<close>, that cannot be
  extended to the left or to the right.
\<close>

definition is_gap :: "bool list \<Rightarrow> nat \<times> nat \<Rightarrow> bool" where
  "is_gap m g =
     (case g of (s, l) \<Rightarrow>
        1 \<le> l \<and> s + l \<le> length m \<and> (\<forall>k<l. m ! (s + k))
        \<and> (s = 0 \<or> \<not> m ! (s - 1)) \<and> (s + l = length m \<or> \<not> m ! (s + l)))"

text \<open>
  A list of gaps in increasing order, the first starting at \<open>b\<close> or later, with at least one
  position between one gap and the next.
\<close>

fun chain :: "nat \<Rightarrow> (nat \<times> nat) list \<Rightarrow> bool" where
  "chain b [] = True"
| "chain b ((s, l) # gs) = (b \<le> s \<and> chain (s + l + 1) gs)"

text \<open>
  \<^verbatim>\<open>df_station[var].isna().values\<close>
\<close>

definition missing_mask :: "var \<Rightarrow> row list \<Rightarrow> bool list" where
  "missing_mask var df = map (\<lambda>r. col var r = None) df"

text \<open>
  The profile lookup of Strategy B for the row at position \<open>i\<close>: the station is the one of
  the first row, month and hour are those of the row.
\<close>

definition profile_at :: "profiles \<Rightarrow> var \<Rightarrow> row list \<Rightarrow> nat \<Rightarrow> real option" where
  "profile_at P var df i = P var (station (df ! 0), month (df ! i), hour (df ! i))"

text \<open>
  The boundary values of a gap: the cell just before its start \<open>s\<close> and the cell at
  its end \<open>e = s + l\<close>, when the frame has such a row.
\<close>

definition before_value :: "var \<Rightarrow> row list \<Rightarrow> nat \<Rightarrow> real option" where
  "before_value var df s = (if 0 < s then col var (df ! (s - 1)) else None)"

definition after_value :: "var \<Rightarrow> row list \<Rightarrow> nat \<Rightarrow> real option" where
  "after_value var df e = (if e < length df then col var (df ! e) else None)"

text \<open>
  The offsets of Strategy B: boundary value minus the profile at the boundary row, when
  both are present.
\<close>

definition before_offset :: "profiles \<Rightarrow> var \<Rightarrow> row list \<Rightarrow> nat \<Rightarrow> real option" where
  "before_offset P var df s =
     (if 0 < s then offset_of (col var (df ! (s - 1))) (profile_at P var df (s - 1)) else None)"

definition after_offset :: "profiles \<Rightarrow> var \<Rightarrow> row list \<Rightarrow> nat \<Rightarrow> real option" where
  "after_offset P var df e =
     (if e < length df then offset_of (col var (df ! e)) (profile_at P var df e) else None)"

text \<open>
  What Strategy A writes into a gap: the interpolated values after the bounds
  enforcement; \<open>None\<close> when the gap is skipped.
\<close>

definition plan_a :: "var \<Rightarrow> row list \<Rightarrow> nat \<Rightarrow> nat \<Rightarrow> real option list option" where
  "plan_a var df s l =
     map_option (map (\<lambda>x. Some (enforce_bounds var x)))
       (strategy_a_interp (before_value var df s) (after_value var df (s + l)) l)"

text \<open>
  What Strategy B writes into a gap: at each position the profile plus the blended
  offset, after the bounds enforcement, and NaN where the profile is absent; \<open>None\<close> when
  the gap is skipped because no position has a profile.
\<close>

definition plan_b :: "profiles \<Rightarrow> var \<Rightarrow> row list \<Rightarrow> nat \<Rightarrow> nat \<Rightarrow> real option list option" where
  "plan_b P var df s l =
     (if all_isnan (map (profile_at P var df) [s..<s + l]) then None
      else Some (map (\<lambda>(p, off). map_option (\<lambda>x. enforce_bounds var (x + off)) p)
                  (zip (map (profile_at P var df) [s..<s + l])
                       (blend_offsets (before_offset P var df s) (after_offset P var df (s + l)) l))))"

text \<open>
  The dispatch on the length of the gap, with the strategy letter.
\<close>

definition gap_plan ::
    "profiles \<Rightarrow> var \<Rightarrow> row list \<Rightarrow> nat \<times> nat \<Rightarrow> (string \<times> real option list) option" where
  "gap_plan P var df g =
     (case g of (s, l) \<Rightarrow>
        if l > 24 then None
        else if l \<le> 2 then map_option (Pair ''A'') (plan_a var df s l)
        else map_option (Pair ''B'') (plan_b P var df s l))"

text \<open>
  The update of one entry of \<open>methods\<close>.
\<close>

definition append_tag :: "string \<Rightarrow> string \<Rightarrow> string" where
  "append_tag tag m = (if m \<noteq> [] then m @ '','' @ tag else tag)"

text \<open>
  A row and a method entry after one gap has been handled according to its plan.
\<close>

definition cell_after ::
    "var \<Rightarrow> (string \<times> real option list) option \<Rightarrow> nat \<Rightarrow> nat \<Rightarrow> nat \<Rightarrow> row \<Rightarrow> row" where
  "cell_after var plan s l i r =
     (case plan of
        None \<Rightarrow> r
      | Some (t, vals) \<Rightarrow> if s \<le> i \<and> i < s + l then set_col var (vals ! (i - s)) r else r)"

definition method_after ::
    "var \<Rightarrow> (string \<times> real option list) option \<Rightarrow> nat \<Rightarrow> nat \<Rightarrow> nat \<Rightarrow> string \<Rightarrow> string" where
  "method_after var plan s l i m =
     (case plan of
        None \<Rightarrow> m
      | Some (t, vals) \<Rightarrow>
          if s \<le> i \<and> i < s + l then append_tag (var_name var @ '':'' @ t) m else m)"

text \<open>
  The first gap of a list that contains position \<open>i\<close>.
\<close>

definition gap_of :: "(nat \<times> nat) list \<Rightarrow> nat \<Rightarrow> (nat \<times> nat) option" where
  "gap_of gs i = List.find (\<lambda>(s, l). s \<le> i \<and> i < s + l) gs"

text \<open>
  Two frames that agree on station, month and hour of every row, and on the column of
  \<open>var\<close> outside the positions \<open>X\<close>.
\<close>

definition same_frame :: "var \<Rightarrow> nat set \<Rightarrow> row list \<Rightarrow> row list \<Rightarrow> bool" where
  "same_frame var X df1 df =
     (length df1 = length df
      \<and> (\<forall>i<length df. station (df1 ! i) = station (df ! i) \<and> month (df1 ! i) = month (df ! i)
            \<and> hour (df1 ! i) = hour (df ! i)
            \<and> (i \<notin> X \<longrightarrow> col var (df1 ! i) = col var (df ! i))))"

text \<open>
  What the pass of a variable does at position \<open>i\<close> of the frame: nothing (\<open>None\<close>), or the
  strategy letter it records and the value it writes (which may be NaN).
\<close>

definition plan_at :: "profiles \<Rightarrow> var \<Rightarrow> row list \<Rightarrow> nat \<Rightarrow> (string \<times> real option) option" where
  "plan_at P var df i =
     (case gap_of (find_gaps (missing_mask var df)) i of
        None \<Rightarrow> None
      | Some (s, l) \<Rightarrow> map_option (\<lambda>(t, vals). (t, vals ! (i - s))) (gap_plan P var df (s, l)))"

text \<open>
  The effect of the pass of one variable on the row and on the method entry at position \<open>i\<close>.
\<close>

definition apply_cell :: "profiles \<Rightarrow> row list \<Rightarrow> nat \<Rightarrow> var \<Rightarrow> row \<Rightarrow> row" where
  "apply_cell P df i var r =
     (case plan_at P var df i of None \<Rightarrow> r | Some (t, x) \<Rightarrow> set_col var x r)"

definition apply_method :: "profiles \<Rightarrow> row list \<Rightarrow> nat \<Rightarrow> var \<Rightarrow> string \<Rightarrow> string" where
  "apply_method P df i var m =
     (case plan_at P var df i of
        None \<Rightarrow> m
      | Some (t, x) \<Rightarrow> append_tag (var_name var @ '':'' @ t) m)"

text \<open>
  Reading a method entry: the entries of the comma-separated list of
  \<^verbatim>\<open>variable:strategy\<close> pairs. An empty field has no entry.
\<close>

fun split_comma :: "string \<Rightarrow> string \<Rightarrow> string list" where
  "split_comma acc [] = [rev acc]"
| "split_comma acc (c # cs) =
     (if c = CHR '','' then rev acc # split_comma [] cs else split_comma (c # acc) cs)"

definition method_entries :: "string \<Rightarrow> string list" where
  "method_entries m = (if m = [] then [] else split_comma [] m)"

text \<open>
  The pair the pass of a variable records at position \<open>i\<close>, if any.
\<close>

definition var_tag :: "profiles \<Rightarrow> row list \<Rightarrow> nat \<Rightarrow> var \<Rightarrow> string option" where
  "var_tag P df i var = map_option (\<lambda>(t, x). var_name var @ '':'' @ t) (plan_at P var df i)"

text \<open>
  The method entry \<open>m\<close> lists the pair of this variable and this strategy.
\<close>

definition tagged :: "var \<Rightarrow> string \<Rightarrow> string \<Rightarrow> bool" where
  "tagged var strategy m = (var_name var @ '':'' @ strategy \<in> set (method_entries m))"

text \<open>
  A gap \<open>(s, l)\<close> of the variable whose boundary cell, when the turn of the gap comes, lies
  in a gap handled before it or no longer holds the value of the frame \<open>df\<close> the pass
  started from.
\<close>

definition feeds_forward :: "profiles \<Rightarrow> var \<Rightarrow> row list \<Rightarrow> bool" where
  "feeds_forward P var df =
     (\<exists>gs1 s l gs2 dfc msc.
        find_gaps (missing_mask var df) = gs1 @ (s, l) # gs2
        \<and> impute_gaps var P (length df) gs1 (df, replicate (length df) []) = Inr (dfc, msc)
        \<and> ((0 < s \<and> (col var (dfc ! (s - 1)) \<noteq> col var (df ! (s - 1)) \<or> gap_of gs1 (s - 1) \<noteq> None))
           \<or> (s + l < length df
               \<and> (col var (dfc ! (s + l)) \<noteq> col var (df ! (s + l)) \<or> gap_of gs1 (s + l) \<noteq> None))))"


section \<open>Example inputs\<close>

text \<open>
  A row of station S24 in January, at hour \<open>h mod 24\<close>, with the three imputed columns.
\<close>

definition mk_row :: "nat \<Rightarrow> real option \<Rightarrow> real option \<Rightarrow> real option \<Rightarrow> row" where
  "mk_row h t r w =
     \<lparr>station = ''S24'', date = int h, month = 1, hour = h mod 24,
      temperature = t, rh = r, wind_speed = w\<rparr>"

text \<open>
  A relative-humidity gap of three hours; with \<open>ex_rh_profiles\<close> the offset before the gap
  is 4.3 and the profile of the first missing hour is 100.
\<close>

definition ex_rh_df :: "row list" where
  "ex_rh_df =
     [mk_row 0 (Some 25) (Some (993 / 10)) (Some 2),
      mk_row 1 (Some 25) None (Some 2),
      mk_row 2 (Some 25) None (Some 2),
      mk_row 3 (Some 25) None (Some 2),
      mk_row 4 (Some 25) (Some 90) (Some 2)]"

definition ex_rh_profiles :: profiles where
  "ex_rh_profiles var key =
     (if var = Rh then map_of [((''S24'', 1, 0), 95), ((''S24'', 1, 1), 100), ((''S24'', 1, 2), 50),
                               ((''S24'', 1, 3), 60), ((''S24'', 1, 4), 90)] key
      else None)"


text \<open>
  Two days, hours 0 to 4. Temperature is missing at hours 1 to 3 of the first day and at
  hour 2 of the second, so hour 2 has no valid temperature at all.
\<close>

definition ex_partial_df :: "row list" where
  "ex_partial_df =
     [mk_row 0 (Some 20) (Some 80) (Some 2),
      mk_row 1 None (Some 80) (Some 2),
      mk_row 2 None (Some 80) (Some 2),
      mk_row 3 None (Some 80) (Some 2),
      mk_row 4 (Some 24) (Some 80) (Some 2),
      mk_row 24 (Some 22) (Some 80) (Some 2),
      mk_row 25 (Some 22) (Some 80) (Some 2),
      mk_row 26 None (Some 80) (Some 2),
      mk_row 27 (Some 23) (Some 80) (Some 2),
      mk_row 28 (Some 22) (Some 80) (Some 2)]"

text \<open>
  A temperature gap of six hours; with \<open>ex_b_profiles\<close> the offsets are +1 before and -1
  after the gap, and the profile of the missing hours is 25, 26, 27, 28, 27, 26.
\<close>

definition ex_b_df :: "row list" where
  "ex_b_df =
     [mk_row 0 (Some 25) (Some 80) (Some 2),
      mk_row 1 None (Some 80) (Some 2),
      mk_row 2 None (Some 80) (Some 2),
      mk_row 3 None (Some 80) (Some 2),
      mk_row 4 None (Some 80) (Some 2),
      mk_row 5 None (Some 80) (Some 2),
      mk_row 6 None (Some 80) (Some 2),
      mk_row 7 (Some 24) (Some 80) (Some 2)]"

definition ex_b_profiles :: profiles where
  "ex_b_profiles var key =
     (if var = Temperature then
        map_of [((''S24'', 1, 0), 24), ((''S24'', 1, 1), 25), ((''S24'', 1, 2), 26),
                ((''S24'', 1, 3), 27), ((''S24'', 1, 4), 28), ((''S24'', 1, 5), 27),
                ((''S24'', 1, 6), 26), ((''S24'', 1, 7), 25)] key
      else None)"

text \<open>
  A temperature gap of two hours between 20 and 24.
\<close>

definition ex_a_df :: "row list" where
  "ex_a_df =
     [mk_row 0 (Some 20) (Some 80) (Some 2),
      mk_row 1 None (Some 80) (Some 2),
      mk_row 2 None (Some 80) (Some 2),
      mk_row 3 (Some 24) (Some 80) (Some 2)]"

text \<open>
  A temperature gap of 25 hours; relative humidity is missing at hour 5 only.
\<close>

definition ex_long_df :: "row list" where
  "ex_long_df =
     map (\<lambda>h. mk_row h (if h = 0 \<or> h = 26 then Some 25 else None)
                       (if h = 5 then None else Some 80) (Some 2))
       [0..<27]"

section \<open>Lemmas\<close>

subsection \<open>find_gaps returns the maximal runs, in order\<close>

lemma find_gaps_run_ge: "i \<le> find_gaps_run m i"
proof (induction m i rule: find_gaps_run.induct)
  case (1 m i)
  then show ?case
    by (subst find_gaps_run.simps) (auto simp: Suc_leD)
qed

lemma find_gaps_run_gt: "i < length m \<Longrightarrow> m ! i \<Longrightarrow> i < find_gaps_run m i"
  using find_gaps_run_ge [of "i + 1" m] by (subst find_gaps_run.simps) simp

lemma find_gaps_run_le: "i \<le> length m \<Longrightarrow> find_gaps_run m i \<le> length m"
proof (induction m i rule: find_gaps_run.induct)
  case (1 m i)
  then show ?case
    by (subst find_gaps_run.simps) auto
qed

lemma find_gaps_run_all: "i \<le> k \<Longrightarrow> k < find_gaps_run m i \<Longrightarrow> m ! k"
proof (induction m i rule: find_gaps_run.induct)
  case (1 m i)
  show ?case
  proof (cases "i < length m \<and> m ! i")
    case True
    then have eq: "find_gaps_run m i = find_gaps_run m (i + 1)"
      by (subst find_gaps_run.simps) simp
    show ?thesis
    proof (cases "k = i")
      case True
      with \<open>i < length m \<and> m ! i\<close> show ?thesis by simp
    next
      case False
      with "1.prems" eq True show ?thesis
        using "1.IH" by simp
    qed
  next
    case False
    then have "find_gaps_run m i = i"
      by (subst find_gaps_run.simps) auto
    with "1.prems" show ?thesis by simp
  qed
qed

lemma find_gaps_run_stop: "find_gaps_run m i < length m \<Longrightarrow> \<not> m ! (find_gaps_run m i)"
proof (induction m i rule: find_gaps_run.induct)
  case (1 m i)
  show ?case
  proof (cases "i < length m \<and> m ! i")
    case True
    then have eq: "find_gaps_run m i = find_gaps_run m (i + 1)"
      by (subst find_gaps_run.simps) simp
    with 1 True show ?thesis by simp
  next
    case False
    then have "find_gaps_run m i = i"
      by (subst find_gaps_run.simps) auto
    with False "1.prems" show ?thesis by simp
  qed
qed

lemma find_gaps_loop_acc:
  "find_gaps_loop m i (acc @ acc') = acc @ find_gaps_loop m i acc'"
proof (induction m i acc' arbitrary: acc rule: find_gaps_loop.induct)
  case (1 m i gaps)
  show ?case
  proof (cases "i < length m")
    case False
    then show ?thesis by (simp add: find_gaps_loop.simps)
  next
    case inb: True
    show ?thesis
    proof (cases "m ! i")
      case True
      have "find_gaps_loop m i (acc @ gaps) =
            find_gaps_loop m (find_gaps_run m i) (acc @ (gaps @ [(i, find_gaps_run m i - i)]))"
        using inb True by (subst find_gaps_loop.simps) simp
      also have "\<dots> = acc @ find_gaps_loop m (find_gaps_run m i) (gaps @ [(i, find_gaps_run m i - i)])"
        using "1.IH"(1) [OF inb True] .
      also have "\<dots> = acc @ find_gaps_loop m i gaps"
        using inb True by (subst (2) find_gaps_loop.simps) simp
      finally show ?thesis .
    next
      case False
      have "find_gaps_loop m i (acc @ gaps) = find_gaps_loop m (i + 1) (acc @ gaps)"
        using inb False by (subst find_gaps_loop.simps) simp
      also have "\<dots> = acc @ find_gaps_loop m (i + 1) gaps"
        using "1.IH"(2) [OF inb False] .
      also have "\<dots> = acc @ find_gaps_loop m i gaps"
        using inb False by (subst (2) find_gaps_loop.simps) simp
      finally show ?thesis .
    qed
  qed
qed

lemma gaps_from_missing:
  "i < length m \<Longrightarrow> m ! i \<Longrightarrow>
     find_gaps_loop m i [] = (i, find_gaps_run m i - i) # find_gaps_loop m (find_gaps_run m i) []"
  using find_gaps_loop_acc [of m "find_gaps_run m i" "[(i, find_gaps_run m i - i)]" "[]"]
  by (subst find_gaps_loop.simps) simp

lemma gaps_from_valid:
  "i < length m \<Longrightarrow> \<not> m ! i \<Longrightarrow> find_gaps_loop m i [] = find_gaps_loop m (i + 1) []"
  by (subst find_gaps_loop.simps) simp

lemma gaps_from_end: "length m \<le> i \<Longrightarrow> find_gaps_loop m i [] = []"
  by (subst find_gaps_loop.simps) simp

lemma gaps_from_skip:
  "\<not> (i < length m \<and> m ! i) \<Longrightarrow> find_gaps_loop m i [] = find_gaps_loop m (i + 1) []"
  by (cases "i < length m") (simp_all add: gaps_from_valid gaps_from_end)

text \<open>Every gap the loop reports from position i on is a maximal run of True.\<close>

lemma gaps_from_is_gap:
  "g \<in> set (find_gaps_loop m i []) \<Longrightarrow> (i < length m \<and> m ! i \<longrightarrow> i = 0 \<or> \<not> m ! (i - 1))
     \<Longrightarrow> is_gap m g"
proof (induction "length m - i" arbitrary: i rule: less_induct)
  case less
  show ?case
  proof (cases "i < length m")
    case False
    with less.prems show ?thesis by (simp add: gaps_from_end)
  next
    case inb: True
    show ?thesis
    proof (cases "m ! i")
      case False
      with inb less.prems have "g \<in> set (find_gaps_loop m (i + 1) [])"
        by (simp add: gaps_from_valid)
      moreover have "length m - (i + 1) < length m - i" using inb by simp
      moreover have "i + 1 < length m \<and> m ! (i + 1) \<longrightarrow> i + 1 = 0 \<or> \<not> m ! (i + 1 - 1)"
        using False by simp
      ultimately show ?thesis using less.hyps by blast
    next
      case True
      define r where "r = find_gaps_run m i"
      have r: "i < r" "r \<le> length m"
        using inb True find_gaps_run_gt find_gaps_run_le [of i m] by (auto simp: r_def)
      from inb True less.prems
      consider "g = (i, r - i)" | "g \<in> set (find_gaps_loop m r [])"
        by (auto simp: gaps_from_missing r_def)
      then show ?thesis
      proof cases
        case 1
        have "\<forall>k<r - i. m ! (i + k)"
          using find_gaps_run_all [of i _ m] by (auto simp: r_def)
        moreover have "i + (r - i) = length m \<or> \<not> m ! (i + (r - i))"
          using r find_gaps_run_stop [of m i] by (auto simp: r_def)
        moreover have "i = 0 \<or> \<not> m ! (i - 1)"
          using less.prems inb True by simp
        ultimately show ?thesis
          using r 1 by (simp add: is_gap_def)
      next
        case 2
        have "length m - r < length m - i" using r inb by simp
        moreover have "r < length m \<and> m ! r \<longrightarrow> r = 0 \<or> \<not> m ! (r - 1)"
          using find_gaps_run_stop [of m i] by (auto simp: r_def)
        ultimately show ?thesis using less.hyps 2 by blast
      qed
    qed
  qed
qed

lemma gaps_from_chain: "chain i (find_gaps_loop m i [])"
proof (induction "length m - i" arbitrary: i rule: less_induct)
  case less
  show ?case
  proof (cases "i < length m")
    case False
    then show ?thesis by (simp add: gaps_from_end)
  next
    case inb: True
    have mono: "chain b gs \<Longrightarrow> a \<le> b \<Longrightarrow> chain a gs" for a b gs
      by (cases gs) auto
    show ?thesis
    proof (cases "m ! i")
      case False
      have "chain (i + 1) (find_gaps_loop m (i + 1) [])"
        using less.hyps [of "i + 1"] inb by simp
      then show ?thesis
        using inb False mono [of "i + 1" _ i] by (simp add: gaps_from_valid)
    next
      case True
      define r where "r = find_gaps_run m i"
      have r: "i < r" "r \<le> length m"
        using inb True find_gaps_run_gt find_gaps_run_le [of i m] by (auto simp: r_def)
      have "\<not> (r < length m \<and> m ! r)"
        using find_gaps_run_stop [of m i] by (auto simp: r_def)
      then have eq: "find_gaps_loop m r [] = find_gaps_loop m (r + 1) []"
        by (rule gaps_from_skip)
      have "chain (r + 1) (find_gaps_loop m (r + 1) [])"
      proof (cases "r < length m")
        case True
        then show ?thesis using less.hyps [of "r + 1"] inb r by simp
      next
        case False
        then show ?thesis by (simp add: gaps_from_end)
      qed
      with eq r show ?thesis
        using inb True by (simp add: gaps_from_missing r_def [symmetric])
    qed
  qed
qed


subsection \<open>One gap\<close>

lemma assign_fold_length:
  "length (fold (\<lambda>(i, v) d. d[i := set_col var v (d ! i)]) ivs df) = length df"
  by (induction ivs arbitrary: df) auto

lemma assign_fold_nth:
  "s + length vals \<le> length df \<Longrightarrow>
   fold (\<lambda>(i, v) d. d[i := set_col var v (d ! i)]) (zip [s..<s + length vals] vals) df ! i =
     (if s \<le> i \<and> i < s + length vals then set_col var (vals ! (i - s)) (df ! i) else df ! i)"
proof (induction vals arbitrary: s df)
  case Nil
  then show ?case by auto
next
  case (Cons v vs)
  have upt: "[s..<s + length (v # vs)] = s # [Suc s..<Suc s + length vs]"
    by (simp add: upt_conv_Cons del: upt_Suc)
  have len: "Suc s + length vs \<le> length (df[s := set_col var v (df ! s)])"
    using Cons.prems by simp
  show ?case
    unfolding upt using Cons.IH [OF len] Cons.prems
    by (auto simp: nth_list_update nth_Cons' Suc_diff_le)
qed

lemma record_method_length: "length (record_method var t idxs ms) = length ms"
  unfolding record_method_def by (induction idxs arbitrary: ms) (auto simp: Let_def)

lemma record_method_nth:
  "s + l \<le> length ms \<Longrightarrow>
   record_method var t [s..<s + l] ms ! i =
     (if s \<le> i \<and> i < s + l then append_tag (var_name var @ '':'' @ t) (ms ! i) else ms ! i)"
proof (induction l arbitrary: s ms)
  case 0
  then show ?case by (auto simp: record_method_def)
next
  case (Suc l)
  have upt: "[s..<s + Suc l] = s # [Suc s..<Suc s + l]"
    by (simp add: upt_conv_Cons del: upt_Suc)
  define ms1 where "ms1 = ms[s := append_tag (var_name var @ '':'' @ t) (ms ! s)]"
  have step: "record_method var t [s..<s + Suc l] ms = record_method var t [Suc s..<Suc s + l] ms1"
    unfolding upt by (simp add: record_method_def ms1_def append_tag_def Let_def)
  have len: "Suc s + l \<le> length ms1" using Suc.prems by (simp add: ms1_def)
  show ?case
    unfolding step using Suc.IH [OF len] Suc.prems
    by (auto simp: ms1_def nth_list_update)
qed

lemma linspace_length: "length (linspace a b n) = n"
  by (simp add: linspace_def)

lemma strategy_a_interp_length: "strategy_a_interp bv av l = Some xs \<Longrightarrow> length xs = l"
  by (cases bv; cases av) (auto simp: linspace_length)

lemma blend_offsets_length: "length (blend_offsets bo ao l) = l"
  by (cases bo; cases ao) (auto simp: linspace_length)

lemma plan_a_length: "plan_a var df s l = Some vals \<Longrightarrow> length vals = l"
  by (auto simp: plan_a_def dest: strategy_a_interp_length)

lemma plan_b_length: "plan_b P var df s l = Some vals \<Longrightarrow> length vals = l"
  by (auto simp: plan_b_def blend_offsets_length split: if_splits)

lemma gap_plan_length: "gap_plan P var df (s, l) = Some (t, vals) \<Longrightarrow> length vals = l"
  by (auto simp: gap_plan_def plan_a_length plan_b_length split: if_splits)

lemma plan_b_nth:
  assumes "plan_b P var df s l = Some vals" and "k < l"
  shows "vals ! k =
           map_option
             (\<lambda>x. enforce_bounds var
                    (x + blend_offsets (before_offset P var df s) (after_offset P var df (s + l)) l ! k))
             (profile_at P var df (s + k))"
  using assms by (auto simp: plan_b_def blend_offsets_length split: if_splits)

lemma plan_b_None: "plan_b P var df s l = None \<longleftrightarrow> (\<forall>k<l. profile_at P var df (s + k) = None)"
proof -
  have "all_isnan (map (profile_at P var df) [s..<s + l]) \<longleftrightarrow>
          (\<forall>k<l. profile_at P var df (s + k) = None)"
    unfolding all_isnan_def list_all_iff
  proof (intro iffI allI impI ballI)
    fix k assume "\<forall>x\<in>set (map (profile_at P var df) [s..<s + l]). x = None" "k < l"
    then show "profile_at P var df (s + k) = None" by simp
  next
    fix x assume a: "\<forall>k<l. profile_at P var df (s + k) = None"
      and "x \<in> set (map (profile_at P var df) [s..<s + l])"
    then obtain j where "s \<le> j" "j < s + l" "x = profile_at P var df j" by auto
    then show "x = None" using a [rule_format, of "j - s"] by simp
  qed
  then show ?thesis by (simp add: plan_b_def)
qed

lemma plan_b_not_all_isnan: "plan_b P var df s l = Some vals \<Longrightarrow> \<not> all_isnan vals"
proof
  assume p: "plan_b P var df s l = Some vals" and a: "all_isnan vals"
  from p have "\<not> (\<forall>k<l. profile_at P var df (s + k) = None)"
    using plan_b_None [of P var df s l] by simp
  then obtain k where k: "k < l" "profile_at P var df (s + k) \<noteq> None" by blast
  from p have len: "length vals = l" by (rule plan_b_length)
  from a len k have "vals ! k = None" by (simp add: all_isnan_def list_all_length)
  with plan_b_nth [OF p k(1)] k(2) show False by auto
qed

lemma strategy_b_plan:
  assumes "1 \<le> l" and "s + l \<le> length df"
  shows "impute_gap_strategy_b df [s..<s + l] var P =
           Inr (case plan_b P var df s l of None \<Rightarrow> replicate l None | Some vals \<Rightarrow> vals)"
proof -
  from assms have ne: "df \<noteq> []" and rng: "\<not> (\<exists>i \<in> set [s..<s + l]. length df \<le> i)"
    by auto
  have hd: "hd [s..<s + l] = s" and lst: "last [s..<s + l] = s + l - 1"
    using assms by (simp_all add: last_upt)
  have pv: "map (\<lambda>(m, h). P var (station (df ! 0), m, h))
              (zip (map (\<lambda>i. month (df ! i)) [s..<s + l]) (map (\<lambda>i. hour (df ! i)) [s..<s + l]))
            = map (profile_at P var df) [s..<s + l]"
    by (simp add: zip_map_map profile_at_def zip_same_conv_map)
  have bo: "offset_of (if 0 < s then map (col var) df ! (s - 1) else None)
              (if (if 0 < s then map (col var) df ! (s - 1) else None) \<noteq> None \<and> 0 < s
               then P var (station (df ! 0), month (df ! (s - 1)), hour (df ! (s - 1))) else None)
            = before_offset P var df s"
    using assms by (cases "col var (df ! (s - 1))") (auto simp: before_offset_def profile_at_def)
  have ao: "offset_of (if s + l < length df then map (col var) df ! (s + l) else None)
              (if (if s + l < length df then map (col var) df ! (s + l) else None) \<noteq> None
                  \<and> s + l < length df
               then P var (station (df ! 0), month (df ! (s + l)), hour (df ! (s + l))) else None)
            = after_offset P var df (s + l)"
    by (cases "col var (df ! (s + l))") (auto simp: after_offset_def profile_at_def)
  have lst1: "s + l - 1 + 1 = s + l" using assms by simp
  have comp: "map (map_option (enforce_bounds var))
                (map (\<lambda>(p, off). map_option (\<lambda>x. x + off) p) xs)
              = map (\<lambda>(p, off). map_option (\<lambda>x. enforce_bounds var (x + off)) p) xs" for xs
    by (auto simp: option.map_comp comp_def)
  show ?thesis
    unfolding impute_gap_strategy_b_def Let_def
    using ne rng
    by (simp only: hd lst lst1 pv bo ao comp length_upt length_map plan_b_def
          simp_thms if_False if_True add_diff_cancel_left' option.case split: if_split)
       (auto simp: )
qed

lemma iloc_assign_ok:
  assumes "s + l \<le> length df" and "length vals = l"
  shows "iloc_assign [s..<s + l] var vals df =
           Inr (fold (\<lambda>(i, v) d. d[i := set_col var v (d ! i)]) (zip [s..<s + length vals] vals) df)"
  using assms by (auto simp: iloc_assign_def)

lemma impute_gap_char:
  assumes wf: "1 \<le> l" "s + l \<le> n" and len: "length df = n" "length ms = n"
  shows "\<exists>df' ms'. impute_gap var P n (s, l) (df, ms) = Inr (df', ms')
           \<and> length df' = n \<and> length ms' = n
           \<and> (\<forall>i<n. df' ! i = cell_after var (gap_plan P var df (s, l)) s l i (df ! i)
                  \<and> ms' ! i = method_after var (gap_plan P var df (s, l)) s l i (ms ! i))"
proof (cases "l > 24")
  case True
  then show ?thesis
    using len by (simp add: impute_gap_def Let_def gap_plan_def cell_after_def method_after_def)
next
  case le24: False
  show ?thesis
  proof (cases "l \<le> 2")
    case True
    have b: "(if 0 < s then iloc df var (s - 1) else Inr None) = Inr (before_value var df s)"
      using wf len by (auto simp: iloc_def before_value_def)
    have a: "(if s + l < n then iloc df var (s + l) else Inr None) = Inr (after_value var df (s + l))"
      using wf len by (auto simp: iloc_def after_value_def)
    show ?thesis
    proof (cases "strategy_a_interp (before_value var df s) (after_value var df (s + l)) l")
      case None
      then show ?thesis
        using True le24 len b a
        by (simp add: impute_gap_def Let_def gap_plan_def plan_a_def cell_after_def method_after_def)
    next
      case (Some interp)
      define vals where "vals = map (\<lambda>x. Some (enforce_bounds var x)) interp"
      have vl: "length vals = l"
        using strategy_a_interp_length [OF Some] by (simp add: vals_def)
      have plan: "gap_plan P var df (s, l) = Some (''A'', vals)"
        using True le24 Some by (simp add: gap_plan_def plan_a_def vals_def)
      define df' where
        "df' = fold (\<lambda>(i, v) d. d[i := set_col var v (d ! i)]) (zip [s..<s + length vals] vals) df"
      have run: "impute_gap var P n (s, l) (df, ms) = Inr (df', record_method var ''A'' [s..<s + l] ms)"
        using True le24 b a Some iloc_assign_ok [of s l df vals var] wf len vl
        by (simp add: impute_gap_def Let_def vals_def [symmetric] df'_def)
      have "\<forall>i<n. df' ! i = cell_after var (Some (''A'', vals)) s l i (df ! i)"
        using assign_fold_nth [of s vals df var] wf len vl
        by (simp add: df'_def cell_after_def)
      moreover have "\<forall>i<n. record_method var ''A'' [s..<s + l] ms ! i
                       = method_after var (Some (''A'', vals)) s l i (ms ! i)"
        using record_method_nth [of s l ms var "''A''"] wf len
        by (simp add: method_after_def)
      ultimately show ?thesis
        using run plan len by (simp add: df'_def assign_fold_length record_method_length)
    qed
  next
    case False
    have sb: "impute_gap_strategy_b df [s..<s + l] var P =
           Inr (case plan_b P var df s l of None \<Rightarrow> replicate l None | Some vals \<Rightarrow> vals)"
      using strategy_b_plan [of l s df var P] wf len by simp
    show ?thesis
    proof (cases "plan_b P var df s l")
      case None
      have "all_isnan (replicate l None)" by (simp add: all_isnan_def list_all_iff)
      then show ?thesis
        using False le24 len sb None
        by (simp add: impute_gap_def Let_def gap_plan_def cell_after_def method_after_def)
    next
      case (Some vals)
      have vl: "length vals = l" using Some by (rule plan_b_length)
      have nn: "\<not> all_isnan vals" using Some by (rule plan_b_not_all_isnan)
      have plan: "gap_plan P var df (s, l) = Some (''B'', vals)"
        using False le24 Some by (simp add: gap_plan_def)
      define df' where
        "df' = fold (\<lambda>(i, v) d. d[i := set_col var v (d ! i)]) (zip [s..<s + length vals] vals) df"
      have run: "impute_gap var P n (s, l) (df, ms) = Inr (df', record_method var ''B'' [s..<s + l] ms)"
        using False le24 sb Some nn iloc_assign_ok [of s l df vals var] wf len vl
        by (simp add: impute_gap_def Let_def df'_def)
      have "\<forall>i<n. df' ! i = cell_after var (Some (''B'', vals)) s l i (df ! i)"
        using assign_fold_nth [of s vals df var] wf len vl
        by (simp add: df'_def cell_after_def)
      moreover have "\<forall>i<n. record_method var ''B'' [s..<s + l] ms ! i
                       = method_after var (Some (''B'', vals)) s l i (ms ! i)"
        using record_method_nth [of s l ms var "''B''"] wf len
        by (simp add: method_after_def)
      ultimately show ?thesis
        using run plan len by (simp add: df'_def assign_fold_length record_method_length)
    qed
  qed
qed

subsection \<open>The loops over the gaps, the variables and the stations\<close>

lemma chain_lower: "chain b gs \<Longrightarrow> (s, l) \<in> set gs \<Longrightarrow> b \<le> s"
proof (induction gs arbitrary: b)
  case Nil
  then show ?case by simp
next
  case (Cons g gs)
  obtain s0 l0 where g: "g = (s0, l0)" by (cases g)
  from Cons.prems g have "b \<le> s0" "chain (s0 + l0 + 1) gs" by simp_all
  with Cons show ?case using g by fastforce
qed

lemma set_col_frame [simp]:
  "station (set_col var v r) = station r" "month (set_col var v r) = month r"
  "hour (set_col var v r) = hour r" "date (set_col var v r) = date r"
  "row.more (set_col var v r) = row.more r"
  by (cases var; simp)+

lemma col_set_col: "col var' (set_col var v r) = (if var' = var then v else col var' r)"
  by (cases var; cases var'; simp)

lemma profile_at_cong:
  "same_frame var X df1 df \<Longrightarrow> i < length df \<Longrightarrow> profile_at P var df1 i = profile_at P var df i"
  by (cases "length df") (auto simp: same_frame_def profile_at_def)

lemma gap_plan_cong:
  assumes sf: "same_frame var X df1 df" and wf: "1 \<le> l" "s + l \<le> length df"
    and b: "0 < s \<Longrightarrow> s - 1 \<notin> X" and a: "s + l < length df \<Longrightarrow> s + l \<notin> X"
  shows "gap_plan P var df1 (s, l) = gap_plan P var df (s, l)"
proof -
  have len: "length df1 = length df" using sf by (simp add: same_frame_def)
  have bv: "before_value var df1 s = before_value var df s"
    using sf wf b by (auto simp: before_value_def same_frame_def)
  have av: "after_value var df1 (s + l) = after_value var df (s + l)"
    using sf a len by (auto simp: after_value_def same_frame_def)
  have bo: "before_offset P var df1 s = before_offset P var df s"
    using sf wf b profile_at_cong [OF sf, of "s - 1" P]
    by (auto simp: before_offset_def same_frame_def)
  have ao: "after_offset P var df1 (s + l) = after_offset P var df (s + l)"
    using sf a len profile_at_cong [OF sf, of "s + l" P]
    by (auto simp: after_offset_def same_frame_def)
  have pv: "map (profile_at P var df1) [s..<s + l] = map (profile_at P var df) [s..<s + l]"
    using wf profile_at_cong [OF sf] by (intro map_cong) auto
  show ?thesis
    by (simp add: gap_plan_def plan_a_def plan_b_def bv av bo ao pv)
qed

lemma gap_of_SomeD:
  "gap_of gs i = Some (s, l) \<Longrightarrow> (s, l) \<in> set gs \<and> s \<le> i \<and> i < s + l"
  by (induction gs) (auto simp: gap_of_def split: if_splits)

lemma gap_of_None_iff: "gap_of gs i = None \<longleftrightarrow> (\<forall>(s, l) \<in> set gs. \<not> (s \<le> i \<and> i < s + l))"
  by (induction gs) (auto simp: gap_of_def)

lemma gap_of_Cons:
  "gap_of ((s, l) # gs) i = (if s \<le> i \<and> i < s + l then Some (s, l) else gap_of gs i)"
  by (simp add: gap_of_def)

lemma impute_gaps_char:
  assumes "chain b gs" and "\<forall>(s, l) \<in> set gs. 1 \<le> l \<and> s + l \<le> n"
    and "length df = n" and "length ms = n"
  shows "\<exists>df' ms'. impute_gaps var P n gs (df, ms) = Inr (df', ms')
           \<and> length df' = n \<and> length ms' = n
           \<and> (\<forall>i<n. df' ! i =
                      (case gap_of gs i of
                         None \<Rightarrow> df ! i
                       | Some (s, l) \<Rightarrow> cell_after var (gap_plan P var df (s, l)) s l i (df ! i))
                  \<and> ms' ! i =
                      (case gap_of gs i of
                         None \<Rightarrow> ms ! i
                       | Some (s, l) \<Rightarrow> method_after var (gap_plan P var df (s, l)) s l i (ms ! i)))"
  using assms
proof (induction gs arbitrary: b df ms)
  case Nil
  then show ?case by (simp add: gap_of_def)
next
  case (Cons g gs)
  obtain s l where g: "g = (s, l)" by (cases g)
  from Cons.prems g have wf: "1 \<le> l" "s + l \<le> n" and ch: "chain (s + l + 1) gs"
    and wfs: "\<forall>(s, l) \<in> set gs. 1 \<le> l \<and> s + l \<le> n"
    by auto
  from impute_gap_char [OF wf Cons.prems(3,4), where var = var and P = P]
  obtain df1 ms1 where step: "impute_gap var P n (s, l) (df, ms) = Inr (df1, ms1)"
    and l1: "length df1 = n" "length ms1 = n"
    and c1: "\<And>i. i < n \<Longrightarrow> df1 ! i = cell_after var (gap_plan P var df (s, l)) s l i (df ! i)"
    and m1: "\<And>i. i < n \<Longrightarrow> ms1 ! i = method_after var (gap_plan P var df (s, l)) s l i (ms ! i)"
    by blast
  from Cons.IH [OF ch wfs l1]
  obtain df' ms' where rest: "impute_gaps var P n gs (df1, ms1) = Inr (df', ms')"
    and l2: "length df' = n" "length ms' = n"
    and c2: "\<And>i. i < n \<Longrightarrow> df' ! i =
                (case gap_of gs i of
                   None \<Rightarrow> df1 ! i
                 | Some (s', l') \<Rightarrow> cell_after var (gap_plan P var df1 (s', l')) s' l' i (df1 ! i))"
    and m2: "\<And>i. i < n \<Longrightarrow> ms' ! i =
                (case gap_of gs i of
                   None \<Rightarrow> ms1 ! i
                 | Some (s', l') \<Rightarrow> method_after var (gap_plan P var df1 (s', l')) s' l' i (ms1 ! i))"
    by blast
  have sf: "same_frame var {s..<s + l} df1 df"
    unfolding same_frame_def using l1 Cons.prems(3) c1
    by (auto simp: cell_after_def col_set_col split: option.splits)
  have later: "s + l + 1 \<le> s'" if "(s', l') \<in> set gs" for s' l'
    using chain_lower [OF ch that] .
  have plan_eq: "gap_plan P var df1 (s', l') = gap_plan P var df (s', l')"
    if "(s', l') \<in> set gs" for s' l'
  proof (rule gap_plan_cong [OF sf])
    from wfs that show "1 \<le> l'" "s' + l' \<le> length df" using Cons.prems(3) by auto
    from later [OF that] show "s' - 1 \<notin> {s..<s + l}" "s' + l' \<notin> {s..<s + l}" by auto
  qed
  have run: "impute_gaps var P n (g # gs) (df, ms) = Inr (df', ms')"
    using step rest g by simp
  have "df' ! i =
          (case gap_of (g # gs) i of
             None \<Rightarrow> df ! i
           | Some (s, l) \<Rightarrow> cell_after var (gap_plan P var df (s, l)) s l i (df ! i))
        \<and> ms' ! i =
          (case gap_of (g # gs) i of
             None \<Rightarrow> ms ! i
           | Some (s, l) \<Rightarrow> method_after var (gap_plan P var df (s, l)) s l i (ms ! i))"
    if i: "i < n" for i
  proof (cases "s \<le> i \<and> i < s + l")
    case True
    have "gap_of gs i = None"
      unfolding gap_of_None_iff using later True by fastforce
    with True c1 [OF i] m1 [OF i] c2 [OF i] m2 [OF i] show ?thesis
      by (simp add: g gap_of_Cons)
  next
    case False
    have d1: "df1 ! i = df ! i" and e1: "ms1 ! i = ms ! i"
      using c1 [OF i] m1 [OF i] False
      by (auto simp: cell_after_def method_after_def split: option.splits)
    show ?thesis
    proof (cases "gap_of gs i")
      case None
      with False c2 [OF i] m2 [OF i] d1 e1 show ?thesis
        by (auto simp: g gap_of_Cons)
    next
      case (Some g')
      obtain s' l' where g': "g' = (s', l')" by (cases g')
      from Some g' have mem: "(s', l') \<in> set gs" using gap_of_SomeD by blast
      from Some g' False c2 [OF i] m2 [OF i] d1 e1 plan_eq [OF mem] show ?thesis
        by (auto simp: g gap_of_Cons)
    qed
  qed
  with run l2 show ?case by blast
qed

lemma find_gaps_is_gap: "g \<in> set (find_gaps m) \<Longrightarrow> is_gap m g"
  unfolding find_gaps_def by (erule gaps_from_is_gap) simp

lemma find_gaps_chain: "chain 0 (find_gaps m)"
  unfolding find_gaps_def by (rule gaps_from_chain)


lemma find_gaps_wf: "(s, l) \<in> set (find_gaps m) \<Longrightarrow> 1 \<le> l \<and> s + l \<le> length m"
  using find_gaps_is_gap [of "(s, l)" m] by (simp add: is_gap_def)

lemma impute_var_char:
  assumes "length df = n" and "length ms = n"
  shows "\<exists>df' ms'. impute_var P n var (df, ms) = Inr (df', ms')
           \<and> length df' = n \<and> length ms' = n
           \<and> (\<forall>i<n. df' ! i = apply_cell P df i var (df ! i)
                  \<and> ms' ! i = apply_method P df i var (ms ! i))"
proof -
  let ?gs = "find_gaps (missing_mask var df)"
  have wf: "\<forall>(s, l) \<in> set ?gs. 1 \<le> l \<and> s + l \<le> n"
    using find_gaps_wf [of _ _ "missing_mask var df"] assms by (auto simp: missing_mask_def)
  from impute_gaps_char [OF find_gaps_chain wf assms, of var P]
  obtain df' ms' where run: "impute_gaps var P n ?gs (df, ms) = Inr (df', ms')"
    and len: "length df' = n" "length ms' = n"
    and c: "\<And>i. i < n \<Longrightarrow> df' ! i =
                (case gap_of ?gs i of
                   None \<Rightarrow> df ! i
                 | Some (s, l) \<Rightarrow> cell_after var (gap_plan P var df (s, l)) s l i (df ! i))"
    and m: "\<And>i. i < n \<Longrightarrow> ms' ! i =
                (case gap_of ?gs i of
                   None \<Rightarrow> ms ! i
                 | Some (s, l) \<Rightarrow> method_after var (gap_plan P var df (s, l)) s l i (ms ! i))"
    by blast
  have "df' ! i = apply_cell P df i var (df ! i) \<and> ms' ! i = apply_method P df i var (ms ! i)"
    if i: "i < n" for i
  proof (cases "gap_of ?gs i")
    case None
    with c [OF i] m [OF i] show ?thesis
      by (simp add: apply_cell_def apply_method_def plan_at_def)
  next
    case (Some g)
    obtain s l where g: "g = (s, l)" by (cases g)
    from Some g have rng: "s \<le> i" "i < s + l" using gap_of_SomeD by blast+
    with Some g c [OF i] m [OF i] show ?thesis
      by (auto simp: apply_cell_def apply_method_def plan_at_def cell_after_def method_after_def
            split: option.splits)
  qed
  moreover have "impute_var P n var (df, ms) = Inr (df', ms')"
    using run by (simp add: impute_var_def missing_mask_def)
  ultimately show ?thesis using len by blast
qed

lemma missing_mask_cong: "same_frame var {} df1 df \<Longrightarrow> missing_mask var df1 = missing_mask var df"
  by (auto simp: same_frame_def missing_mask_def intro!: nth_equalityI)

lemma plan_at_cong:
  assumes "same_frame var {} df1 df"
  shows "plan_at P var df1 i = plan_at P var df i"
proof (cases "gap_of (find_gaps (missing_mask var df)) i")
  case None
  then show ?thesis by (simp add: plan_at_def missing_mask_cong [OF assms])
next
  case (Some g)
  obtain s l where g: "g = (s, l)" by (cases g)
  from Some g have "(s, l) \<in> set (find_gaps (missing_mask var df))" using gap_of_SomeD by blast
  then have "1 \<le> l" "s + l \<le> length df"
    using find_gaps_wf [of s l "missing_mask var df"] by (simp_all add: missing_mask_def)
  then have "gap_plan P var df1 (s, l) = gap_plan P var df (s, l)"
    by (intro gap_plan_cong [OF assms]) simp_all
  with Some g show ?thesis by (simp add: plan_at_def missing_mask_cong [OF assms])
qed

lemma impute_vars_char:
  assumes "distinct vs" and "\<forall>v \<in> set vs. same_frame v {} dfc df"
    and "length dfc = n" and "length ms = n"
  shows "\<exists>df' ms'. impute_vars P n vs (dfc, ms) = Inr (df', ms')
           \<and> length df' = n \<and> length ms' = n
           \<and> (\<forall>i<n. df' ! i = fold (apply_cell P df i) vs (dfc ! i)
                  \<and> ms' ! i = fold (apply_method P df i) vs (ms ! i))"
  using assms
proof (induction vs arbitrary: dfc ms)
  case Nil
  then show ?case by simp
next
  case (Cons v vs)
  from impute_var_char [OF Cons.prems(3,4), of P v]
  obtain df1 ms1 where step: "impute_var P n v (dfc, ms) = Inr (df1, ms1)"
    and l1: "length df1 = n" "length ms1 = n"
    and c1: "\<And>i. i < n \<Longrightarrow> df1 ! i = apply_cell P dfc i v (dfc ! i)"
    and m1: "\<And>i. i < n \<Longrightarrow> ms1 ! i = apply_method P dfc i v (ms ! i)"
    by blast
  have pv: "plan_at P v dfc i = plan_at P v df i" for i
    using Cons.prems(2) by (intro plan_at_cong) simp
  have lens: "length df = n"
    using Cons.prems(2,3) by (auto simp: same_frame_def)
  have sf: "\<forall>v' \<in> set vs. same_frame v' {} df1 df"
  proof
    fix v' assume v': "v' \<in> set vs"
    with Cons.prems(1) have ne: "v' \<noteq> v" by auto
    from v' Cons.prems(2) have "same_frame v' {} dfc df" by simp
    then show "same_frame v' {} df1 df"
      unfolding same_frame_def using l1 lens Cons.prems(3) c1 ne
      by (auto simp: apply_cell_def col_set_col split: option.splits)
  qed
  from Cons.prems(1) have d: "distinct vs" by simp
  from Cons.IH [OF d sf l1]
  obtain df' ms' where rest: "impute_vars P n vs (df1, ms1) = Inr (df', ms')"
    and l2: "length df' = n" "length ms' = n"
    and c2: "\<And>i. i < n \<Longrightarrow> df' ! i = fold (apply_cell P df i) vs (df1 ! i)"
    and m2: "\<And>i. i < n \<Longrightarrow> ms' ! i = fold (apply_method P df i) vs (ms1 ! i)"
    by blast
  have "impute_vars P n (v # vs) (dfc, ms) = Inr (df', ms')"
    using step rest by simp
  moreover have "df' ! i = fold (apply_cell P df i) (v # vs) (dfc ! i)
                 \<and> ms' ! i = fold (apply_method P df i) (v # vs) (ms ! i)" if "i < n" for i
    using c1 [OF that] m1 [OF that] c2 [OF that] m2 [OF that] pv
    by (simp add: apply_cell_def apply_method_def)
  ultimately show ?case using l2 by blast
qed

lemma same_frame_refl: "same_frame v X df df"
  by (simp add: same_frame_def)

lemma impute_station_char:
  "\<exists>df' ms'. impute_station df P = Inr (df', ms')
     \<and> length df' = length df \<and> length ms' = length df
     \<and> (\<forall>i<length df. df' ! i = fold (apply_cell P df i) IMPUTE_VARS (df ! i)
            \<and> ms' ! i = fold (apply_method P df i) IMPUTE_VARS [])"
proof -
  have d: "distinct IMPUTE_VARS" by (simp add: IMPUTE_VARS_def)
  have sf: "\<forall>v \<in> set IMPUTE_VARS. same_frame v {} df df" by (simp add: same_frame_refl)
  from impute_vars_char [OF d sf refl, of "replicate (length df) []" P]
  show ?thesis by (auto simp: impute_station_def Let_def)
qed

lemma col_final:
  "col v (fold (apply_cell P df i) IMPUTE_VARS r) =
     (case plan_at P v df i of None \<Rightarrow> col v r | Some (t, x) \<Rightarrow> x)"
  by (cases v) (auto simp: IMPUTE_VARS_def apply_cell_def split: option.splits)

lemma frame_final:
  "station (fold (apply_cell P df i) IMPUTE_VARS r) = station r"
  "date (fold (apply_cell P df i) IMPUTE_VARS r) = date r"
  "month (fold (apply_cell P df i) IMPUTE_VARS r) = month r"
  "hour (fold (apply_cell P df i) IMPUTE_VARS r) = hour r"
  "row.more (fold (apply_cell P df i) IMPUTE_VARS r) = row.more r"
  by (auto simp: IMPUTE_VARS_def apply_cell_def split: option.splits)

subsection \<open>Cells, tags and bounds in the output of a station\<close>

lemma chain_gap_of:
  "chain b gs \<Longrightarrow> (s, l) \<in> set gs \<Longrightarrow> s \<le> i \<Longrightarrow> i < s + l \<Longrightarrow> gap_of gs i = Some (s, l)"
proof (induction gs arbitrary: b)
  case Nil
  then show ?case by simp
next
  case (Cons g gs)
  obtain s0 l0 where g: "g = (s0, l0)" by (cases g)
  from Cons.prems(1) g have ch: "chain (s0 + l0 + 1) gs" by simp
  show ?case
  proof (cases "(s, l) = (s0, l0)")
    case True
    with Cons.prems g show ?thesis by (simp add: gap_of_Cons)
  next
    case False
    with Cons.prems(2) g have mem: "(s, l) \<in> set gs" by auto
    from chain_lower [OF ch mem] Cons.prems(3) have "\<not> (s0 \<le> i \<and> i < s0 + l0)" by simp
    with Cons.IH [OF ch mem Cons.prems(3,4)] g show ?thesis by (auto simp: gap_of_Cons)
  qed
qed

lemma plan_at_in_gap:
  assumes "(s, l) \<in> set (find_gaps (missing_mask var df))" and "k < l"
  shows "plan_at P var df (s + k) = map_option (\<lambda>(t, vals). (t, vals ! k)) (gap_plan P var df (s, l))"
proof -
  have "gap_of (find_gaps (missing_mask var df)) (s + k) = Some (s, l)"
    using chain_gap_of [OF find_gaps_chain assms(1), of "s + k"] assms(2) by simp
  then show ?thesis by (simp add: plan_at_def)
qed

lemma plan_at_valid:
  assumes "i < length df" and "col var (df ! i) \<noteq> None"
  shows "plan_at P var df i = None"
proof (cases "gap_of (find_gaps (missing_mask var df)) i")
  case None
  then show ?thesis by (simp add: plan_at_def)
next
  case (Some g)
  obtain s l where g: "g = (s, l)" by (cases g)
  from Some g have mem: "(s, l) \<in> set (find_gaps (missing_mask var df))" and rng: "s \<le> i" "i < s + l"
    using gap_of_SomeD by blast+
  from find_gaps_is_gap [OF mem] have "\<forall>k<l. missing_mask var df ! (s + k)"
    by (simp add: is_gap_def)
  moreover from rng have "i - s < l" by simp
  ultimately have "missing_mask var df ! (s + (i - s))" by blast
  with rng assms show ?thesis by (simp add: missing_mask_def)
qed

lemma gap_plan_bounds:
  assumes "gap_plan P var df (s, l) = Some (t, vals)" and "k < l" and "vals ! k = Some v"
  shows "\<exists>y. v = enforce_bounds var y"
proof (cases "l \<le> 2")
  case True
  with assms(1) obtain interp where
    i: "strategy_a_interp (before_value var df s) (after_value var df (s + l)) l = Some interp"
    and v: "vals = map (\<lambda>x. Some (enforce_bounds var x)) interp"
    by (auto simp: gap_plan_def plan_a_def split: if_splits)
  from strategy_a_interp_length [OF i] assms(2,3) v show ?thesis by auto
next
  case False
  with assms(1) have p: "plan_b P var df s l = Some vals"
    by (auto simp: gap_plan_def split: if_splits)
  from plan_b_nth [OF p assms(2)] assms(3) show ?thesis
    by (cases "profile_at P var df (s + k)") auto
qed

lemma main_loop_char:
  "\<exists>rs. main_loop P df sts acc = Inr (acc @ rs)
     \<and> map Inr rs = map (\<lambda>st. impute_station (filter (\<lambda>r. station r = st) df) P) sts"
proof (induction sts arbitrary: acc)
  case Nil
  then show ?case by simp
next
  case (Cons st sts)
  from impute_station_char [of "filter (\<lambda>r. station r = st) df" P]
  obtain r where r: "impute_station (filter (\<lambda>r. station r = st) df) P = Inr r" by auto
  from Cons.IH [of "acc @ [r]"] obtain rs where
    "main_loop P df sts (acc @ [r]) = Inr ((acc @ [r]) @ rs)"
    "map Inr rs = map (\<lambda>st. impute_station (filter (\<lambda>r. station r = st) df) P) sts"
    by blast
  with r have "main_loop P df (st # sts) acc = Inr (acc @ (r # rs))
     \<and> map Inr (r # rs) = map (\<lambda>st. impute_station (filter (\<lambda>r. station r = st) df) P) (st # sts)"
    by simp
  then show ?case by blast
qed

lemma filled_value_bounds:
  assumes run: "impute_station df P = Inr (df', ms)" and i: "i < length df"
    and miss: "col var (df ! i) = None" and fill: "col var (df' ! i) = Some v"
  shows "\<exists>y. v = enforce_bounds var y"
proof -
  from impute_station_char [of df P] run i
  have "df' ! i = fold (apply_cell P df i) IMPUTE_VARS (df ! i)" by auto
  then have c: "col var (df' ! i) = (case plan_at P var df i of None \<Rightarrow> col var (df ! i) | Some (t, x) \<Rightarrow> x)"
    by (simp add: col_final)
  with miss fill obtain t where pa: "plan_at P var df i = Some (t, Some v)"
    by (auto split: option.splits)
  then obtain s l where g: "gap_of (find_gaps (missing_mask var df)) i = Some (s, l)"
    by (auto simp: plan_at_def split: option.splits)
  with pa obtain vals where gp: "gap_plan P var df (s, l) = Some (t, vals)" and vk: "vals ! (i - s) = Some v"
    by (auto simp: plan_at_def)
  from gap_of_SomeD [OF g] have "i - s < l" by auto
  from gap_plan_bounds [OF gp this vk] show ?thesis .
qed

lemma ex_rh_run:
  "impute_station ex_rh_df ex_rh_profiles =
     Inr ([mk_row 0 (Some 25) (Some (993 / 10)) (Some 2),
           mk_row 1 (Some 25) (Some 100) (Some 2),
           mk_row 2 (Some 25) (Some (1043 / 20)) (Some 2),
           mk_row 3 (Some 25) (Some 60) (Some 2),
           mk_row 4 (Some 25) (Some 90) (Some 2)],
          [[], ''rh:B'', ''rh:B'', ''rh:B'', []])"
  by code_simp

lemma cell_in_gap:
  assumes run: "impute_station df P = Inr (df', ms)"
    and gap: "(s, l) \<in> set (find_gaps (missing_mask var df))" and k: "k < l"
  shows "col var (df' ! (s + k)) =
           (case gap_plan P var df (s, l) of None \<Rightarrow> None | Some (t, vals) \<Rightarrow> vals ! k)"
proof -
  from find_gaps_is_gap [OF gap] k have rng: "s + k < length df" and miss: "missing_mask var df ! (s + k)"
    by (auto simp: is_gap_def missing_mask_def)
  then have none: "col var (df ! (s + k)) = None" by (simp add: missing_mask_def)
  from impute_station_char [of df P] run rng
  have "df' ! (s + k) = fold (apply_cell P df (s + k)) IMPUTE_VARS (df ! (s + k))" by auto
  then show ?thesis
    by (simp add: col_final plan_at_in_gap [OF gap k] none split: option.splits)
qed

lemma plan_at_tag: "plan_at P var df i = Some (t, x) \<Longrightarrow> t = ''A'' \<or> t = ''B''"
  by (auto simp: plan_at_def gap_plan_def split: option.splits if_splits)

lemma method_final:
  assumes run: "impute_station df P = Inr (df', ms)" and i: "i < length df"
  shows "method_entries (ms ! i) = List.map_filter (var_tag P df i) IMPUTE_VARS"
proof -
  from impute_station_char [of df P] run i
  have m: "ms ! i = fold (apply_method P df i) IMPUTE_VARS []" by auto
  have t: "plan_at P v df i = None \<or> (\<exists>x. plan_at P v df i = Some (''A'', x))
            \<or> (\<exists>x. plan_at P v df i = Some (''B'', x))" for v
    using plan_at_tag [of P v df i] by (cases "plan_at P v df i") auto
  show ?thesis
    unfolding m using t [of Temperature] t [of Rh] t [of Wind_speed]
    by (elim disjE exE)
       (simp_all add: IMPUTE_VARS_def apply_method_def append_tag_def method_entries_def
          var_tag_def )
qed

lemma var_tag_in_gap:
  assumes "(s, l) \<in> set (find_gaps (missing_mask var df))" and "k < l"
  shows "var_tag P df (s + k) var =
           map_option (\<lambda>(t, vals). var_name var @ '':'' @ t) (gap_plan P var df (s, l))"
  by (simp add: var_tag_def plan_at_in_gap [OF assms] option.map_comp comp_def split_def)

lemma gap_plan_b:
  "3 \<le> l \<Longrightarrow> l \<le> 24 \<Longrightarrow> gap_plan P var df (s, l) = map_option (Pair ''B'') (plan_b P var df s l)"
  by (simp add: gap_plan_def)

lemma gap_plan_a:
  "l \<le> 2 \<Longrightarrow> gap_plan P var df (s, l) = map_option (Pair ''A'') (plan_a var df s l)"
  by (simp add: gap_plan_def)

lemma strategy_b_cell:
  assumes run: "impute_station df P = Inr (df', ms)"
    and gap: "(s, l) \<in> set (find_gaps (missing_mask var df))" and len: "3 \<le> l" "l \<le> 24" and k: "k < l"
  shows "col var (df' ! (s + k)) =
           map_option
             (\<lambda>x. enforce_bounds var
                    (x + blend_offsets (before_offset P var df s) (after_offset P var df (s + l)) l ! k))
             (profile_at P var df (s + k))"
proof (cases "plan_b P var df s l")
  case None
  then have "profile_at P var df (s + k) = None" using k by (simp add: plan_b_None)
  with None show ?thesis
    by (simp add: cell_in_gap [OF run gap k] gap_plan_b [OF len])
next
  case (Some vals)
  with plan_b_nth [OF Some k] show ?thesis
    by (simp add: cell_in_gap [OF run gap k] gap_plan_b [OF len])
qed

lemma ex_partial_gap: "(1, 3) \<in> set (find_gaps (missing_mask Temperature ex_partial_df))"
  by code_simp

lemma ex_partial_run:
  "impute_station ex_partial_df (build_diurnal_profiles ex_partial_df) =
     Inr ([mk_row 0 (Some 20) (Some 80) (Some 2),
           mk_row 1 (Some 21) (Some 80) (Some 2),
           mk_row 2 None (Some 80) (Some 2),
           mk_row 3 (Some 24) (Some 80) (Some 2),
           mk_row 4 (Some 24) (Some 80) (Some 2),
           mk_row 24 (Some 22) (Some 80) (Some 2),
           mk_row 25 (Some 22) (Some 80) (Some 2),
           mk_row 26 (Some (45 / 2)) (Some 80) (Some 2),
           mk_row 27 (Some 23) (Some 80) (Some 2),
           mk_row 28 (Some 22) (Some 80) (Some 2)],
          [[], ''temperature:B'', ''temperature:B'', ''temperature:B'', [], [], [],
           ''temperature:A'', [], []])"
  by code_simp

lemma linspace_nth:
  "k < n \<Longrightarrow> n \<noteq> 1 \<Longrightarrow> linspace a b n ! k = a + real k * ((b - a) / real (n - 1))"
  by (simp add: linspace_def)

lemma blend_offsets_nth:
  assumes "k < l" and "l \<noteq> 1"
  shows "blend_offsets bo ao l ! k =
           (case (bo, ao) of
              (Some x, Some y) \<Rightarrow> (1 - real k / real (l - 1)) * x + (1 - (1 - real k / real (l - 1))) * y
            | (Some x, None) \<Rightarrow> x
            | (None, Some y) \<Rightarrow> y
            | (None, None) \<Rightarrow> 0)"
  using assms by (cases bo; cases ao) (simp_all add: linspace_length linspace_nth)

lemma strategy_a_interp_nth:
  assumes "strategy_a_interp bv av l = Some xs" and "k < l"
  shows "xs ! k =
           (case (bv, av) of
              (Some b, Some a) \<Rightarrow> b + real (k + 1) * ((a - b) / real (l + 1))
            | (Some b, None) \<Rightarrow> b
            | (None, Some a) \<Rightarrow> a)"
proof (cases bv; cases av)
  fix b a assume ba: "bv = Some b" "av = Some a"
  with assms(1) have xs: "xs = butlast (tl (linspace b a (l + 2)))" by simp
  have "xs ! k = linspace b a (l + 2) ! (k + 1)"
    unfolding xs using assms(2) by (simp add: nth_butlast nth_tl linspace_length)
  also have "\<dots> = b + real (k + 1) * ((a - b) / real (l + 1))"
    using assms(2) by (subst linspace_nth) simp_all
  finally show ?thesis using ba by simp
qed (use assms in auto)

lemma enforce_bounds_convex:
  assumes b: "enforce_bounds var b = b" and a: "enforce_bounds var a = a"
    and t: "0 \<le> t" "t \<le> 1"
  shows "enforce_bounds var (b + t * (a - b)) = b + t * (a - b)"
proof -
  have eq: "b + t * (a - b) = (1 - t) * b + t * a" by (simp add: algebra_simps)
  have lo: "0 \<le> (1 - t) * b + t * a" if "0 \<le> b" "0 \<le> a"
    using that t by simp
  have hi: "(1 - t) * b + t * a \<le> 100" if "b \<le> 100" "a \<le> 100"
  proof -
    have "(1 - t) * b \<le> (1 - t) * 100" using that(1) t by (intro mult_left_mono) simp_all
    moreover have "t * a \<le> t * 100" using that(2) t by (intro mult_left_mono) simp_all
    ultimately show ?thesis by (simp add: algebra_simps)
  qed
  show ?thesis
  proof (cases var)
    case Temperature
    then show ?thesis by (simp add: enforce_bounds_def)
  next
    case Rh
    with b a have "0 \<le> b" "b \<le> 100" "0 \<le> a" "a \<le> 100"
      by (auto simp: enforce_bounds_def min_def max_def split: if_splits)
    with lo hi Rh show ?thesis unfolding eq by (simp add: enforce_bounds_def)
  next
    case Wind_speed
    with b a have "0 \<le> b" "0 \<le> a"
      by (auto simp: enforce_bounds_def max_def split: if_splits)
    with lo Wind_speed show ?thesis unfolding eq by (simp add: enforce_bounds_def)
  qed
qed

lemma set_map_filter_iff: "y \<in> set (List.map_filter f xs) \<longleftrightarrow> (\<exists>x \<in> set xs. f x = Some y)"
  by (induction xs) (auto split: option.splits)

lemma tag_eq_iff:
  "var_name v @ CHR '':'' # t' = var_name var @ CHR '':'' # t \<longleftrightarrow> v = var \<and> t' = t"
  by (cases v; cases var) auto

lemma tagged_iff:
  assumes run: "impute_station df P = Inr (df', ms)" and i: "i < length df"
  shows "tagged var t (ms ! i) \<longleftrightarrow> (\<exists>x. plan_at P var df i = Some (t, x))"
proof -
  have "tagged var t (ms ! i) \<longleftrightarrow>
          (\<exists>v \<in> set IMPUTE_VARS. var_tag P df i v = Some (var_name var @ '':'' @ t))"
    by (simp add: tagged_def method_final [OF run i] set_map_filter_iff)
  also have "\<dots> \<longleftrightarrow> var_tag P df i var = Some (var_name var @ '':'' @ t)"
  proof
    assume "\<exists>v \<in> set IMPUTE_VARS. var_tag P df i v = Some (var_name var @ '':'' @ t)"
    then obtain v where "var_tag P df i v = Some (var_name var @ '':'' @ t)" by blast
    then have "v = var" by (auto simp: var_tag_def tag_eq_iff)
    with \<open>var_tag P df i v = _\<close> show "var_tag P df i var = Some (var_name var @ '':'' @ t)" by simp
  next
    assume "var_tag P df i var = Some (var_name var @ '':'' @ t)"
    moreover have "var \<in> set IMPUTE_VARS" by (cases var) (simp_all add: IMPUTE_VARS_def)
    ultimately show "\<exists>v \<in> set IMPUTE_VARS. var_tag P df i v = Some (var_name var @ '':'' @ t)"
      by blast
  qed
  also have "\<dots> \<longleftrightarrow> (\<exists>x. plan_at P var df i = Some (t, x))"
    by (auto simp: var_tag_def)
  finally show ?thesis .
qed

lemma tagged_in_gap:
  assumes run: "impute_station df P = Inr (df', ms)"
    and gap: "(s, l) \<in> set (find_gaps (missing_mask var df))" and k: "k < l"
  shows "tagged var t (ms ! (s + k)) \<longleftrightarrow> (\<exists>vals. gap_plan P var df (s, l) = Some (t, vals))"
proof -
  from find_gaps_is_gap [OF gap] k have rng: "s + k < length df"
    by (auto simp: is_gap_def missing_mask_def)
  show ?thesis
    unfolding tagged_iff [OF run rng] plan_at_in_gap [OF gap k] by auto
qed

lemma ex_b_run:
  "impute_station ex_b_df ex_b_profiles =
     Inr ([mk_row 0 (Some 25) (Some 80) (Some 2),
           mk_row 1 (Some 26) (Some 80) (Some 2),
           mk_row 2 (Some (133 / 5)) (Some 80) (Some 2),
           mk_row 3 (Some (136 / 5)) (Some 80) (Some 2),
           mk_row 4 (Some (139 / 5)) (Some 80) (Some 2),
           mk_row 5 (Some (132 / 5)) (Some 80) (Some 2),
           mk_row 6 (Some 25) (Some 80) (Some 2),
           mk_row 7 (Some 24) (Some 80) (Some 2)],
          [[], ''temperature:B'', ''temperature:B'', ''temperature:B'', ''temperature:B'',
           ''temperature:B'', ''temperature:B'', []])"
  by code_simp

lemma ex_a_run:
  "impute_station ex_a_df (\<lambda>var key. None) =
     Inr ([mk_row 0 (Some 20) (Some 80) (Some 2),
           mk_row 1 (Some (64 / 3)) (Some 80) (Some 2),
           mk_row 2 (Some (68 / 3)) (Some 80) (Some 2),
           mk_row 3 (Some 24) (Some 80) (Some 2)],
          [[], ''temperature:A'', ''temperature:A'', []])"
  by code_simp

lemma valid_cell_unchanged:
  assumes run: "impute_station df P = Inr (df', ms)" and i: "i < length df"
    and v: "col var (df ! i) \<noteq> None"
  shows "col var (df' ! i) = col var (df ! i)"
proof -
  from impute_station_char [of df P] run i
  have "df' ! i = fold (apply_cell P df i) IMPUTE_VARS (df ! i)" by auto
  then show ?thesis by (simp add: col_final plan_at_valid [OF i v])
qed

lemma station_frame:
  assumes run: "impute_station df P = Inr (df', ms)" and i: "i < length df"
  shows "station (df' ! i) = station (df ! i)" "date (df' ! i) = date (df ! i)"
    "month (df' ! i) = month (df ! i)" "hour (df' ! i) = hour (df ! i)"
    "row.more (df' ! i) = row.more (df ! i)"
proof -
  from impute_station_char [of df P] run i
  have "df' ! i = fold (apply_cell P df i) IMPUTE_VARS (df ! i)" by auto
  then show "station (df' ! i) = station (df ! i)" "date (df' ! i) = date (df ! i)"
    "month (df' ! i) = month (df ! i)" "hour (df' ! i) = hour (df ! i)"
    "row.more (df' ! i) = row.more (df ! i)"
    by (simp_all add: frame_final)
qed

lemma variable_alone:
  assumes run: "impute_station df P = Inr (df', ms)"
  shows "\<exists>dfv msv. impute_var P (length df) var (df, replicate (length df) []) = Inr (dfv, msv)
           \<and> (\<forall>i<length df. col var (df' ! i) = col var (dfv ! i)
                  \<and> (\<forall>v'. v' \<noteq> var \<longrightarrow> col v' (dfv ! i) = col v' (df ! i)))"
proof -
  from impute_var_char [of df "length df" "replicate (length df) []" P var]
  obtain dfv msv where
    v: "impute_var P (length df) var (df, replicate (length df) []) = Inr (dfv, msv)"
    and c: "\<And>i. i < length df \<Longrightarrow> dfv ! i = apply_cell P df i var (df ! i)"
    by auto
  have "col var (df' ! i) = col var (dfv ! i) \<and> (\<forall>v'. v' \<noteq> var \<longrightarrow> col v' (dfv ! i) = col v' (df ! i))"
    if i: "i < length df" for i
  proof -
    from impute_station_char [of df P] run i
    have "df' ! i = fold (apply_cell P df i) IMPUTE_VARS (df ! i)" by auto
    then have "col var (df' ! i) = col var (dfv ! i)"
      by (simp add: col_final c [OF i] apply_cell_def col_set_col split: option.splits)
    moreover have "\<forall>v'. v' \<noteq> var \<longrightarrow> col v' (dfv ! i) = col v' (df ! i)"
      by (simp add: c [OF i] apply_cell_def col_set_col split: option.splits)
    ultimately show ?thesis by simp
  qed
  with v show ?thesis by blast
qed

lemma long_gap_untouched:
  assumes run: "impute_station df P = Inr (df', ms)"
    and gap: "(s, l) \<in> set (find_gaps (missing_mask var df))" and len: "24 < l" and k: "k < l"
  shows "col var (df' ! (s + k)) = None" "\<not> tagged var t (ms ! (s + k))"
  using len by (simp_all add: cell_in_gap [OF run gap k] tagged_in_gap [OF run gap k] gap_plan_def)

lemma record_empty:
  assumes run: "impute_station df P = Inr (df', ms)" and i: "i < length df"
    and none: "\<forall>v. plan_at P v df i = None"
  shows "ms ! i = []"
proof -
  from impute_station_char [of df P] run i
  have "ms ! i = fold (apply_method P df i) IMPUTE_VARS []" by auto
  with none show ?thesis by (simp add: IMPUTE_VARS_def apply_method_def)
qed

lemma main_char:
  "\<exists>results. main df = Inr results
     \<and> map Inr results =
         map (\<lambda>st. impute_station (filter (\<lambda>r. station r = st) df) (build_diurnal_profiles df))
           (sort (remdups (map station df)))"
  using main_loop_char [of "build_diurnal_profiles df" df "sort (remdups (map station df))" "[]"]
  by (simp add: main_def Let_def)

subsection \<open>Boundary cells\<close>

lemma impute_gaps_append:
  "impute_gaps var P n (xs @ ys) st =
     (case impute_gaps var P n xs st of Inl e \<Rightarrow> Inl e | Inr st' \<Rightarrow> impute_gaps var P n ys st')"
  by (induction xs arbitrary: st) (auto split: sum.splits)

lemma chain_prefix: "chain b (xs @ ys) \<Longrightarrow> chain b xs"
  by (induction xs arbitrary: b) auto

lemma col_fold_other:
  "var \<notin> set vs \<Longrightarrow> col var (fold (apply_cell P df i) vs r) = col var r"
  by (induction vs arbitrary: r) (auto simp: apply_cell_def col_set_col split: option.splits)

lemma frame_fold:
  "station (fold (apply_cell P df i) vs r) = station r"
  "month (fold (apply_cell P df i) vs r) = month r"
  "hour (fold (apply_cell P df i) vs r) = hour r"
  by (induction vs arbitrary: r) (auto simp: apply_cell_def split: option.splits)

text \<open>
  The boundary cells of a gap are valid cells, so they lie in no gap; the loop over
  a prefix of the gaps leaves them as they were.
\<close>

lemma boundary_untouched:
  assumes split: "find_gaps (missing_mask var df) = gs1 @ (s, l) # gs2"
    and len: "length ms = length df"
  shows "\<exists>dfc msc. impute_gaps var P (length df) gs1 (df, ms) = Inr (dfc, msc)
           \<and> length dfc = length df
           \<and> (0 < s \<longrightarrow> gap_of gs1 (s - 1) = None \<and> dfc ! (s - 1) = df ! (s - 1)
                 \<and> col var (df ! (s - 1)) \<noteq> None)
           \<and> (s + l < length df \<longrightarrow> gap_of gs1 (s + l) = None \<and> dfc ! (s + l) = df ! (s + l)
                 \<and> col var (df ! (s + l)) \<noteq> None)"
proof -
  let ?m = "missing_mask var df"
  have lm: "length ?m = length df" by (simp add: missing_mask_def)
  have mem: "(s, l) \<in> set (find_gaps ?m)" using split by simp
  have sub: "set gs1 \<subseteq> set (find_gaps ?m)" using split by auto
  have ch: "chain 0 gs1" using find_gaps_chain [of ?m] split chain_prefix by metis
  have wf: "\<forall>(s, l) \<in> set gs1. 1 \<le> l \<and> s + l \<le> length df"
    using sub find_gaps_wf [of _ _ ?m] lm by auto
  from impute_gaps_char [OF ch wf refl len, of var P]
  obtain dfc msc where run: "impute_gaps var P (length df) gs1 (df, ms) = Inr (dfc, msc)"
    and l1: "length dfc = length df"
    and c: "\<And>i. i < length df \<Longrightarrow> dfc ! i =
              (case gap_of gs1 i of
                 None \<Rightarrow> df ! i
               | Some (s, l) \<Rightarrow> cell_after var (gap_plan P var df (s, l)) s l i (df ! i))"
    by blast
  have g: "is_gap ?m (s, l)" using find_gaps_is_gap [OF mem] .
  have valid_free: "gap_of gs1 i = None" if "i < length df" "\<not> ?m ! i" for i
  proof (cases "gap_of gs1 i")
    case None
    then show ?thesis .
  next
    case (Some g')
    obtain s' l' where g': "g' = (s', l')" by (cases g')
    from Some g' have "(s', l') \<in> set gs1" "s' \<le> i" "i < s' + l'" using gap_of_SomeD by blast+
    with sub have "is_gap ?m (s', l')" using find_gaps_is_gap by blast
    then have "\<forall>k<l'. ?m ! (s' + k)" by (simp add: is_gap_def)
    moreover have "i - s' < l'" using \<open>s' \<le> i\<close> \<open>i < s' + l'\<close> by simp
    ultimately have "?m ! (s' + (i - s'))" by blast
    with \<open>s' \<le> i\<close> that(2) show ?thesis by simp
  qed
  have before: "gap_of gs1 (s - 1) = None \<and> dfc ! (s - 1) = df ! (s - 1) \<and> col var (df ! (s - 1)) \<noteq> None"
    if "0 < s"
  proof -
    from g that have nm: "\<not> ?m ! (s - 1)" and rng: "s - 1 < length df"
      using lm by (auto simp: is_gap_def)
    from valid_free [OF rng nm] c [OF rng] nm rng show ?thesis
      by (simp add: missing_mask_def)
  qed
  have after: "gap_of gs1 (s + l) = None \<and> dfc ! (s + l) = df ! (s + l) \<and> col var (df ! (s + l)) \<noteq> None"
    if rng: "s + l < length df"
  proof -
    from g that have nm: "\<not> ?m ! (s + l)" using lm by (auto simp: is_gap_def)
    from valid_free [OF rng nm] c [OF rng] nm rng show ?thesis
      by (simp add: missing_mask_def)
  qed
  from run l1 before after show ?thesis by blast
qed

lemma before_var_turn:
  assumes vars: "IMPUTE_VARS = vs1 @ var # vs2"
  shows "\<exists>dfv msv. impute_vars P (length df) vs1 (df, replicate (length df) []) = Inr (dfv, msv)
           \<and> length dfv = length df \<and> length msv = length df
           \<and> same_frame var {} dfv df"
proof -
  have "distinct IMPUTE_VARS" by (simp add: IMPUTE_VARS_def)
  then have "distinct (vs1 @ var # vs2)" unfolding vars .
  then have d1: "distinct vs1" and nin: "var \<notin> set vs1" by auto
  have sf: "\<forall>v \<in> set vs1. same_frame v {} df df" by (simp add: same_frame_refl)
  from impute_vars_char [OF d1 sf refl, of "replicate (length df) []" P]
  obtain dfv msv where run: "impute_vars P (length df) vs1 (df, replicate (length df) []) = Inr (dfv, msv)"
    and len: "length dfv = length df" "length msv = length df"
    and c: "\<And>i. i < length df \<Longrightarrow> dfv ! i = fold (apply_cell P df i) vs1 (df ! i)"
    by auto
  have "same_frame var {} dfv df"
    unfolding same_frame_def using len c nin by (simp add: col_fold_other frame_fold)
  with run len show ?thesis by blast
qed

subsection \<open>A second run\<close>








section \<open>The claims\<close>

text \<open>
  C1. In a gap of 3 to 24 hours, a position \<open>k\<close> (counted from 0) whose profile
  lookup is \<open>p\<close> is filled with \<open>p\<close> plus the blended offset, passed through the
  bounds enforcement: the weight of the offset before the gap is \<open>1 - k / (l - 1)\<close>
  when both offsets are present, a single offset is added as it is, and nothing is
  added when there is none. For temperature the bounds enforcement is the identity.
\<close>

theorem strategy_b_fill_values:
  assumes "(s, l) \<in> set (find_gaps (missing_mask var df))" and "3 \<le> l" and "l \<le> 24" and "k < l"
    and "profile_at P var df (s + k) = Some p"
  shows "\<exists>df' ms. impute_station df P = Inr (df', ms)
           \<and> (\<forall>bo ao. before_offset P var df s = Some bo \<and> after_offset P var df (s + l) = Some ao
                 \<longrightarrow> col var (df' ! (s + k)) =
                       Some (enforce_bounds var
                              (p + ((1 - real k / real (l - 1)) * bo
                                    + (1 - (1 - real k / real (l - 1))) * ao))))
           \<and> (\<forall>bo. before_offset P var df s = Some bo \<and> after_offset P var df (s + l) = None
                 \<longrightarrow> col var (df' ! (s + k)) = Some (enforce_bounds var (p + bo)))
           \<and> (\<forall>ao. before_offset P var df s = None \<and> after_offset P var df (s + l) = Some ao
                 \<longrightarrow> col var (df' ! (s + k)) = Some (enforce_bounds var (p + ao)))
           \<and> (before_offset P var df s = None \<and> after_offset P var df (s + l) = None
                 \<longrightarrow> col var (df' ! (s + k)) = Some (enforce_bounds var p))
           \<and> (\<forall>x. enforce_bounds Temperature x = x)"
proof -
  from impute_station_char [of df P] obtain df' ms where run: "impute_station df P = Inr (df', ms)"
    by blast
  have l1: "l \<noteq> 1" using assms(2) by simp
  have "col var (df' ! (s + k)) =
          Some (enforce_bounds var
                 (p + blend_offsets (before_offset P var df s) (after_offset P var df (s + l)) l ! k))"
    by (simp add: strategy_b_cell [OF run assms(1-4)] assms(5))
  then have "col var (df' ! (s + k)) =
          Some (enforce_bounds var
                 (p + (case (before_offset P var df s, after_offset P var df (s + l)) of
                         (Some x, Some y) \<Rightarrow>
                           (1 - real k / real (l - 1)) * x + (1 - (1 - real k / real (l - 1))) * y
                       | (Some x, None) \<Rightarrow> x
                       | (None, Some y) \<Rightarrow> y
                       | (None, None) \<Rightarrow> 0)))"
    by (simp only: blend_offsets_nth [OF assms(4) l1])
  moreover have "\<forall>x. enforce_bounds Temperature x = x" by (simp add: enforce_bounds_def)
  ultimately show ?thesis using run by auto
qed

text \<open>
  Witness for C1, the scenario of the specification: a temperature gap of six hours,
  offset +1 before and -1 after, profile 25, 26, 27, 28, 27, 26. The filled values are
  26, 26.6, 27.2, 27.8, 26.4, 25; the theorem gives the second one.
\<close>

theorem strategy_b_fill_values_witness:
  "(1, 6) \<in> set (find_gaps (missing_mask Temperature ex_b_df))
   \<and> map (profile_at ex_b_profiles Temperature ex_b_df) [1..<7] =
        [Some 25, Some 26, Some 27, Some 28, Some 27, Some 26]
   \<and> before_offset ex_b_profiles Temperature ex_b_df 1 = Some 1
   \<and> after_offset ex_b_profiles Temperature ex_b_df (1 + 6) = Some (- 1)
   \<and> (\<exists>df' ms. impute_station ex_b_df ex_b_profiles = Inr (df', ms)
         \<and> col Temperature (df' ! (1 + 1)) = Some (266 / 10)
         \<and> map temperature df' =
             [Some 25, Some 26, Some (266 / 10), Some (272 / 10), Some (278 / 10), Some (264 / 10),
              Some 25, Some 24])"
proof -
  have gap: "(1, 6) \<in> set (find_gaps (missing_mask Temperature ex_b_df))" by code_simp
  have prof: "map (profile_at ex_b_profiles Temperature ex_b_df) [1..<7] =
        [Some 25, Some 26, Some 27, Some 28, Some 27, Some 26]" by code_simp
  have p1: "profile_at ex_b_profiles Temperature ex_b_df (1 + 1) = Some 26" by code_simp
  have bo: "before_offset ex_b_profiles Temperature ex_b_df 1 = Some 1" by code_simp
  have ao: "after_offset ex_b_profiles Temperature ex_b_df (1 + 6) = Some (- 1)" by code_simp
  from strategy_b_fill_values [OF gap _ _ _ p1]
  obtain df' ms where run: "impute_station ex_b_df ex_b_profiles = Inr (df', ms)"
    and both: "\<forall>bo ao. before_offset ex_b_profiles Temperature ex_b_df 1 = Some bo
                 \<and> after_offset ex_b_profiles Temperature ex_b_df (1 + 6) = Some ao
                 \<longrightarrow> col Temperature (df' ! (1 + 1)) =
                       Some (enforce_bounds Temperature
                              (26 + ((1 - real 1 / real (6 - 1)) * bo
                                    + (1 - (1 - real 1 / real (6 - 1))) * ao)))"
    by auto
  from both bo ao have v: "col Temperature (df' ! (1 + 1)) = Some (266 / 10)"
    by (simp add: enforce_bounds_def)
  from run have "map temperature df' =
             [Some 25, Some 26, Some (266 / 10), Some (272 / 10), Some (278 / 10), Some (264 / 10),
              Some 25, Some 24]"
    by (auto simp: ex_b_run mk_row_def)
  with run v have "\<exists>df' ms. impute_station ex_b_df ex_b_profiles = Inr (df', ms)
         \<and> col Temperature (df' ! (1 + 1)) = Some (266 / 10)
         \<and> map temperature df' =
             [Some 25, Some 26, Some (266 / 10), Some (272 / 10), Some (278 / 10), Some (264 / 10),
              Some 25, Some 24]"
    by (intro exI conjI)
  with gap prof bo ao show ?thesis by (intro conjI)
qed

text \<open>
  C2. A gap of one or two hours is filled from its boundary values, the cells just
  before and just after it. With both present, position \<open>k\<close> gets the \<open>(k+1)\<close>-th of the
  \<open>l\<close> interior points that divide the interval into \<open>l + 1\<close> equal steps; with one
  present, every position gets that value; each value passes through the bounds
  enforcement, which leaves it as it is when the boundary values are within the
  bounds (always, for temperature). The positions are tagged \<open>A\<close>. With no boundary
  value the gap keeps its missing markers and gets no tag.
\<close>

theorem strategy_a_fill_values:
  assumes "(s, l) \<in> set (find_gaps (missing_mask var df))" and "l \<le> 2" and "k < l"
  shows "\<exists>df' ms. impute_station df P = Inr (df', ms)
           \<and> (\<forall>b a. before_value var df s = Some b \<and> after_value var df (s + l) = Some a
                 \<longrightarrow> col var (df' ! (s + k)) =
                       Some (enforce_bounds var (b + real (k + 1) * ((a - b) / real (l + 1))))
                   \<and> (enforce_bounds var b = b \<and> enforce_bounds var a = a
                        \<longrightarrow> col var (df' ! (s + k)) = Some (b + real (k + 1) * ((a - b) / real (l + 1))))
                   \<and> tagged var ''A'' (ms ! (s + k)))
           \<and> (\<forall>b. before_value var df s = Some b \<and> after_value var df (s + l) = None
                 \<longrightarrow> col var (df' ! (s + k)) = Some (enforce_bounds var b)
                   \<and> tagged var ''A'' (ms ! (s + k)))
           \<and> (\<forall>a. before_value var df s = None \<and> after_value var df (s + l) = Some a
                 \<longrightarrow> col var (df' ! (s + k)) = Some (enforce_bounds var a)
                   \<and> tagged var ''A'' (ms ! (s + k)))
           \<and> (before_value var df s = None \<and> after_value var df (s + l) = None
                 \<longrightarrow> col var (df' ! (s + k)) = None
                   \<and> \<not> tagged var ''A'' (ms ! (s + k)) \<and> \<not> tagged var ''B'' (ms ! (s + k)))"
proof -
  from impute_station_char [of df P] obtain df' ms where run: "impute_station df P = Inr (df', ms)"
    by blast
  let ?bv = "before_value var df s" and ?av = "after_value var df (s + l)"
  have none: "col var (df' ! (s + k)) = None
                \<and> \<not> tagged var ''A'' (ms ! (s + k)) \<and> \<not> tagged var ''B'' (ms ! (s + k))"
    if "?bv = None" "?av = None"
    using that by (simp add: cell_in_gap [OF run assms(1,3)] tagged_in_gap [OF run assms(1,3)]
        gap_plan_a [OF assms(2)] plan_a_def)
  have some: "col var (df' ! (s + k)) =
                Some (enforce_bounds var
                       (case (?bv, ?av) of
                          (Some b, Some a) \<Rightarrow> b + real (k + 1) * ((a - b) / real (l + 1))
                        | (Some b, None) \<Rightarrow> b
                        | (None, Some a) \<Rightarrow> a))
              \<and> tagged var ''A'' (ms ! (s + k))"
    if "?bv \<noteq> None \<or> ?av \<noteq> None"
  proof -
    from that obtain interp where i: "strategy_a_interp ?bv ?av l = Some interp"
      by (cases ?bv; cases ?av) auto
    from strategy_a_interp_length [OF i] assms(3) strategy_a_interp_nth [OF i assms(3)] i
    show ?thesis
      by (simp add: cell_in_gap [OF run assms(1,3)] tagged_in_gap [OF run assms(1,3)]
          gap_plan_a [OF assms(2)] plan_a_def)
  qed
  have conv: "enforce_bounds var (b + real (k + 1) * ((a - b) / real (l + 1)))
                = b + real (k + 1) * ((a - b) / real (l + 1))"
    if "enforce_bounds var b = b" "enforce_bounds var a = a" for a b
  proof -
    have t: "0 \<le> real (k + 1) / real (l + 1)" "real (k + 1) / real (l + 1) \<le> 1"
      using assms(3) by simp_all
    from enforce_bounds_convex [OF that t] show ?thesis by simp
  qed
  from none some conv run show ?thesis by auto
qed

text \<open>
  Witness for C2, the scenario of the specification: boundary values 20 and 24
  around a gap of two hours. The filled values are 64/3 and 68/3, that is 21.33 and
  22.67 to two decimals, both tagged \<open>A\<close>; the theorem gives the first one.
\<close>

theorem strategy_a_fill_values_witness:
  "(1, 2) \<in> set (find_gaps (missing_mask Temperature ex_a_df))
   \<and> before_value Temperature ex_a_df 1 = Some 20
   \<and> after_value Temperature ex_a_df (1 + 2) = Some 24
   \<and> (\<exists>df' ms. impute_station ex_a_df (\<lambda>var key. None) = Inr (df', ms)
         \<and> col Temperature (df' ! (1 + 0)) = Some (64 / 3)
         \<and> tagged Temperature ''A'' (ms ! (1 + 0))
         \<and> map temperature df' = [Some 20, Some (64 / 3), Some (68 / 3), Some 24]
         \<and> ms = [[], ''temperature:A'', ''temperature:A'', []])
   \<and> \<bar>64 / 3 - 2133 / 100\<bar> < (5 / 1000 :: real) \<and> \<bar>68 / 3 - 2267 / 100\<bar> < (5 / 1000 :: real)"
proof -
  have gap: "(1, 2) \<in> set (find_gaps (missing_mask Temperature ex_a_df))" by code_simp
  have bv: "before_value Temperature ex_a_df 1 = Some 20" by code_simp
  have av: "after_value Temperature ex_a_df (1 + 2) = Some 24" by code_simp
  from strategy_a_fill_values [OF gap, of 0 "\<lambda>var key. None"]
  obtain df' ms where run: "impute_station ex_a_df (\<lambda>var key. None) = Inr (df', ms)"
    and both: "\<forall>b a. before_value Temperature ex_a_df 1 = Some b
                 \<and> after_value Temperature ex_a_df (1 + 2) = Some a
                 \<longrightarrow> col Temperature (df' ! (1 + 0)) =
                       Some (enforce_bounds Temperature (b + real (0 + 1) * ((a - b) / real (2 + 1))))
                   \<and> tagged Temperature ''A'' (ms ! (1 + 0))"
    by auto
  from both bv av have v: "col Temperature (df' ! (1 + 0)) = Some (64 / 3)"
    and t: "tagged Temperature ''A'' (ms ! (1 + 0))"
    by (simp_all add: enforce_bounds_def)
  from run have all: "map temperature df' = [Some 20, Some (64 / 3), Some (68 / 3), Some 24]"
    and ms: "ms = [[], ''temperature:A'', ''temperature:A'', []]"
    by (auto simp: ex_a_run mk_row_def)
  have r: "\<bar>64 / 3 - 2133 / 100\<bar> < (5 / 1000 :: real)" "\<bar>68 / 3 - 2267 / 100\<bar> < (5 / 1000 :: real)"
    by simp_all
  from run v t all ms
  have "\<exists>df' ms. impute_station ex_a_df (\<lambda>var key. None) = Inr (df', ms)
         \<and> col Temperature (df' ! (1 + 0)) = Some (64 / 3)
         \<and> tagged Temperature ''A'' (ms ! (1 + 0))
         \<and> map temperature df' = [Some 20, Some (64 / 3), Some (68 / 3), Some 24]
         \<and> ms = [[], ''temperature:A'', ''temperature:A'', []]"
    by (intro exI conjI)
  with gap bv av r show ?thesis by (intro conjI)
qed

text \<open>
  C3 on the data of \<open>ex_partial_df\<close>, run through \<open>main\<close>: the temperature of the
  third row is missing and stays missing (its hour has no profile), and yet the
  method recorded for that row is \<open>temperature:B\<close>.
\<close>

theorem unfilled_position_is_tagged:
  "(case main ex_partial_df of
      Inr [(df', ms)] \<Rightarrow>
        temperature (ex_partial_df ! 2) = None \<and> temperature (df' ! 2) = None
        \<and> ms ! 2 = ''temperature:B'' \<and> method_entries (ms ! 2) = [''temperature:B'']
    | _ \<Rightarrow> False)"
  by code_simp

text \<open>
  C4. A gap of 3 to 24 hours never raises. Each of its positions is resolved on its
  own: a position stays missing exactly when its own profile lookup is absent, so the
  whole gap stays missing exactly when every lookup is absent.
\<close>

theorem strategy_b_partial_resolution:
  assumes "(s, l) \<in> set (find_gaps (missing_mask var df))" and "3 \<le> l" and "l \<le> 24"
  shows "\<exists>df' ms. impute_station df P = Inr (df', ms)
           \<and> (\<forall>k<l. col var (df' ! (s + k)) = None \<longleftrightarrow> profile_at P var df (s + k) = None)
           \<and> ((\<forall>k<l. col var (df' ! (s + k)) = None)
                \<longleftrightarrow> (\<forall>k<l. profile_at P var df (s + k) = None))"
proof -
  from impute_station_char [of df P] obtain df' ms where run: "impute_station df P = Inr (df', ms)"
    by blast
  have "col var (df' ! (s + k)) = None \<longleftrightarrow> profile_at P var df (s + k) = None" if "k < l" for k
    by (simp add: strategy_b_cell [OF run assms that])
  with run show ?thesis by blast
qed

text \<open>
  Witness for C4: the hours 1 to 3 of the first day are missing; the profile built
  from the data has a value at hours 1 and 3 and none at hour 2. Hours 1 and 3 are
  filled, hour 2 keeps its missing marker.
\<close>

theorem strategy_b_partial_resolution_witness:
  "(1, 3) \<in> set (find_gaps (missing_mask Temperature ex_partial_df))
   \<and> profile_at (build_diurnal_profiles ex_partial_df) Temperature ex_partial_df (1 + 1) = None
   \<and> profile_at (build_diurnal_profiles ex_partial_df) Temperature ex_partial_df (1 + 0) = Some 22
   \<and> (\<exists>df' ms. impute_station ex_partial_df (build_diurnal_profiles ex_partial_df) = Inr (df', ms)
        \<and> col Temperature (df' ! (1 + 1)) = None \<and> col Temperature (df' ! (1 + 0)) \<noteq> None)"
proof -
  let ?P = "build_diurnal_profiles ex_partial_df"
  have p1: "profile_at ?P Temperature ex_partial_df (1 + 1) = None" by code_simp
  have p0: "profile_at ?P Temperature ex_partial_df (1 + 0) = Some 22" by code_simp
  from strategy_b_partial_resolution [OF ex_partial_gap, of ?P]
  obtain df' ms where run: "impute_station ex_partial_df ?P = Inr (df', ms)"
    and each: "\<forall>k<3. col Temperature (df' ! (1 + k)) = None
                 \<longleftrightarrow> profile_at ?P Temperature ex_partial_df (1 + k) = None"
    by auto
  from each p1 have "col Temperature (df' ! (1 + 1)) = None" by auto
  moreover from each p0 have "col Temperature (df' ! (1 + 0)) \<noteq> None" by auto
  ultimately show ?thesis using ex_partial_gap p1 p0 run by blast
qed

text \<open>
  C5. Every value filled into the relative-humidity column lies in [0, 100] and every
  value filled into the wind-speed column is at least 0, whichever strategy produced
  it; temperature passes unchanged through the bounds enforcement, and a relative
  humidity of 104.3 is clipped to exactly 100.
\<close>

theorem filled_values_within_bounds:
  "\<exists>df' ms. impute_station df P = Inr (df', ms)
     \<and> (\<forall>i<length df. \<forall>v. rh (df ! i) = None \<and> rh (df' ! i) = Some v \<longrightarrow> 0 \<le> v \<and> v \<le> 100)
     \<and> (\<forall>i<length df. \<forall>v. wind_speed (df ! i) = None \<and> wind_speed (df' ! i) = Some v \<longrightarrow> 0 \<le> v)
     \<and> (\<forall>x. enforce_bounds Temperature x = x)
     \<and> enforce_bounds Rh (1043 / 10) = 100"
proof -
  from impute_station_char [of df P] obtain df' ms where run: "impute_station df P = Inr (df', ms)"
    by blast
  have "0 \<le> v \<and> v \<le> 100" if "i < length df" "rh (df ! i) = None" "rh (df' ! i) = Some v" for i v
    using filled_value_bounds [OF run that(1), of Rh v] that(2,3)
    by (auto simp: enforce_bounds_def)
  moreover have "0 \<le> v" if "i < length df" "wind_speed (df ! i) = None" "wind_speed (df' ! i) = Some v" for i v
    using filled_value_bounds [OF run that(1), of Wind_speed v] that(2,3)
    by (auto simp: enforce_bounds_def)
  moreover have "\<forall>x. enforce_bounds Temperature x = x" "enforce_bounds Rh (1043 / 10) = 100"
    by (simp_all add: enforce_bounds_def)
  ultimately show ?thesis using run by blast
qed

text \<open>
  Witness for C5: a relative-humidity gap of three hours whose first position has
  profile 100 and blended offset 4.3, so that profile plus offset is 104.3; the cell
  is filled with exactly 100.
\<close>

theorem filled_values_within_bounds_witness:
  "rh (ex_rh_df ! 1) = None
   \<and> (\<exists>df' ms. impute_station ex_rh_df ex_rh_profiles = Inr (df', ms)
         \<and> rh (df' ! 1) = Some 100 \<and> (0::real) \<le> 100 \<and> (100::real) \<le> 100)"
proof -
  from filled_values_within_bounds [of ex_rh_df ex_rh_profiles]
  obtain df' ms where run: "impute_station ex_rh_df ex_rh_profiles = Inr (df', ms)"
    and b: "\<forall>i<length ex_rh_df. \<forall>v. rh (ex_rh_df ! i) = None \<and> rh (df' ! i) = Some v \<longrightarrow> 0 \<le> v \<and> v \<le> 100"
    by blast
  have miss: "rh (ex_rh_df ! 1) = None" by (simp add: ex_rh_df_def mk_row_def)
  from run have fill: "rh (df' ! 1) = Some 100" by (auto simp: ex_rh_run mk_row_def)
  have "1 < length ex_rh_df" by (simp add: ex_rh_df_def)
  with b miss fill have "(0::real) \<le> 100 \<and> (100::real) \<le> 100" by blast
  with miss run fill show ?thesis by blast
qed

text \<open>
  C6 fails as stated: a temperature gap of 25 hours is left alone, but the record of
  its fifth hour is not empty, because relative humidity was filled in that row.
\<close>

theorem long_gap_record_not_empty:
  "(1, 25) \<in> set (find_gaps (missing_mask Temperature ex_long_df))
   \<and> (case impute_station ex_long_df (\<lambda>var key. None) of
         Inl e \<Rightarrow> False
       | Inr (df', ms) \<Rightarrow> temperature (df' ! 5) = None \<and> ms ! 5 = ''rh:A'')"
  by code_simp

text \<open>
  C6 (as amended). The imputation of one station changes nothing but missing cells of
  the three imputed columns: every valid cell, and every other column of every row,
  is the same in the output; the final column of a variable is the one obtained by
  imputing that variable alone, which changes no other column; every position of a
  gap longer than 24 hours keeps its missing marker and gets no tag of that variable,
  and its record is empty when the other two variables are valid in that row.
\<close>

theorem frame_condition:
  "\<exists>df' ms. impute_station df P = Inr (df', ms) \<and> length df' = length df \<and> length ms = length df
     \<and> (\<forall>i<length df. station (df' ! i) = station (df ! i) \<and> date (df' ! i) = date (df ! i)
            \<and> month (df' ! i) = month (df ! i) \<and> hour (df' ! i) = hour (df ! i)
            \<and> row.more (df' ! i) = row.more (df ! i))
     \<and> (\<forall>i<length df. \<forall>v. col v (df ! i) \<noteq> None \<longrightarrow> col v (df' ! i) = col v (df ! i))
     \<and> (\<forall>v. \<exists>dfv msv. impute_var P (length df) v (df, replicate (length df) []) = Inr (dfv, msv)
            \<and> (\<forall>i<length df. col v (df' ! i) = col v (dfv ! i)
                   \<and> (\<forall>v'. v' \<noteq> v \<longrightarrow> col v' (dfv ! i) = col v' (df ! i))))
     \<and> (\<forall>v s l k. (s, l) \<in> set (find_gaps (missing_mask v df)) \<and> 24 < l \<and> k < l
            \<longrightarrow> col v (df' ! (s + k)) = None
              \<and> \<not> tagged v ''A'' (ms ! (s + k)) \<and> \<not> tagged v ''B'' (ms ! (s + k))
              \<and> ((\<forall>v'. v' \<noteq> v \<longrightarrow> col v' (df ! (s + k)) \<noteq> None) \<longrightarrow> ms ! (s + k) = []))"
proof -
  from impute_station_char [of df P] obtain df' ms where run: "impute_station df P = Inr (df', ms)"
    and len: "length df' = length df" "length ms = length df"
    by blast
  have long: "col v (df' ! (s + k)) = None
              \<and> \<not> tagged v ''A'' (ms ! (s + k)) \<and> \<not> tagged v ''B'' (ms ! (s + k))
              \<and> ((\<forall>v'. v' \<noteq> v \<longrightarrow> col v' (df ! (s + k)) \<noteq> None) \<longrightarrow> ms ! (s + k) = [])"
    if gap: "(s, l) \<in> set (find_gaps (missing_mask v df))" and l: "24 < l" and k: "k < l" for v s l k
  proof -
    from find_gaps_is_gap [OF gap] k have rng: "s + k < length df"
      by (auto simp: is_gap_def missing_mask_def)
    have "ms ! (s + k) = []" if others: "\<forall>v'. v' \<noteq> v \<longrightarrow> col v' (df ! (s + k)) \<noteq> None"
    proof (rule record_empty [OF run rng], rule allI)
      fix v'
      show "plan_at P v' df (s + k) = None"
      proof (cases "v' = v")
        case True
        then show ?thesis using l by (simp add: plan_at_in_gap [OF gap k] gap_plan_def)
      next
        case False
        with others show ?thesis by (simp add: plan_at_valid [OF rng])
      qed
    qed
    with long_gap_untouched [OF run gap l k] show ?thesis by simp
  qed
  have a: "\<forall>i<length df. station (df' ! i) = station (df ! i) \<and> date (df' ! i) = date (df ! i)
            \<and> month (df' ! i) = month (df ! i) \<and> hour (df' ! i) = hour (df ! i)
            \<and> row.more (df' ! i) = row.more (df ! i)"
    using station_frame [OF run] by simp
  have b: "\<forall>i<length df. \<forall>v. col v (df ! i) \<noteq> None \<longrightarrow> col v (df' ! i) = col v (df ! i)"
    using valid_cell_unchanged [OF run] by blast
  have c: "\<forall>v. \<exists>dfv msv. impute_var P (length df) v (df, replicate (length df) []) = Inr (dfv, msv)
            \<and> (\<forall>i<length df. col v (df' ! i) = col v (dfv ! i)
                   \<and> (\<forall>v'. v' \<noteq> v \<longrightarrow> col v' (dfv ! i) = col v' (df ! i)))"
    using variable_alone [OF run] by blast
  have d: "\<forall>v s l k. (s, l) \<in> set (find_gaps (missing_mask v df)) \<and> 24 < l \<and> k < l
            \<longrightarrow> col v (df' ! (s + k)) = None
              \<and> \<not> tagged v ''A'' (ms ! (s + k)) \<and> \<not> tagged v ''B'' (ms ! (s + k))
              \<and> ((\<forall>v'. v' \<noteq> v \<longrightarrow> col v' (df ! (s + k)) \<noteq> None) \<longrightarrow> ms ! (s + k) = [])"
    using long by blast
  from run len a b c d show ?thesis by (intro exI conjI)
qed

text \<open>
  Witness for C6: the temperature gap of 25 hours of \<open>ex_long_df\<close>. Its fourth
  hour keeps the missing marker and has an empty record (the other two variables are
  valid there); the valid temperature of the first row is unchanged.
\<close>

theorem frame_condition_witness:
  "(1, 25) \<in> set (find_gaps (missing_mask Temperature ex_long_df)) \<and> (24::nat) < 25 \<and> (3::nat) < 25
   \<and> col Rh (ex_long_df ! (1 + 3)) \<noteq> None \<and> col Wind_speed (ex_long_df ! (1 + 3)) \<noteq> None
   \<and> col Temperature (ex_long_df ! 0) \<noteq> None
   \<and> (\<exists>df' ms. impute_station ex_long_df (\<lambda>var key. None) = Inr (df', ms)
         \<and> col Temperature (df' ! (1 + 3)) = None \<and> ms ! (1 + 3) = []
         \<and> col Temperature (df' ! 0) = col Temperature (ex_long_df ! 0))"
proof -
  have gap: "(1, 25) \<in> set (find_gaps (missing_mask Temperature ex_long_df))" by code_simp
  have r: "col Rh (ex_long_df ! (1 + 3)) \<noteq> None" by code_simp
  have w: "col Wind_speed (ex_long_df ! (1 + 3)) \<noteq> None" by code_simp
  have t: "col Temperature (ex_long_df ! 0) \<noteq> None" by code_simp
  have others: "\<forall>v'. v' \<noteq> Temperature \<longrightarrow> col v' (ex_long_df ! (1 + 3)) \<noteq> None"
  proof (intro allI impI)
    fix v' :: var assume "v' \<noteq> Temperature"
    then show "col v' (ex_long_df ! (1 + 3)) \<noteq> None" using r w by (cases v') simp_all
  qed
  have n: "0 < length ex_long_df" by code_simp
  from frame_condition [of ex_long_df "\<lambda>var key. None"]
  obtain df' ms where run: "impute_station ex_long_df (\<lambda>var key. None) = Inr (df', ms)"
    and valid: "\<forall>i<length ex_long_df. \<forall>v. col v (ex_long_df ! i) \<noteq> None
                 \<longrightarrow> col v (df' ! i) = col v (ex_long_df ! i)"
    and long: "\<forall>v s l k. (s, l) \<in> set (find_gaps (missing_mask v ex_long_df)) \<and> 24 < l \<and> k < l
            \<longrightarrow> col v (df' ! (s + k)) = None
              \<and> \<not> tagged v ''A'' (ms ! (s + k)) \<and> \<not> tagged v ''B'' (ms ! (s + k))
              \<and> ((\<forall>v'. v' \<noteq> v \<longrightarrow> col v' (ex_long_df ! (s + k)) \<noteq> None) \<longrightarrow> ms ! (s + k) = [])"
    by blast
  from long [rule_format, of 1 25 Temperature 3] gap others
  have c: "col Temperature (df' ! (1 + 3)) = None" and m: "ms ! (1 + 3) = []" by simp_all
  from valid n t have u: "col Temperature (df' ! 0) = col Temperature (ex_long_df ! 0)" by blast
  from run c m u
  have "\<exists>df' ms. impute_station ex_long_df (\<lambda>var key. None) = Inr (df', ms)
         \<and> col Temperature (df' ! (1 + 3)) = None \<and> ms ! (1 + 3) = []
         \<and> col Temperature (df' ! 0) = col Temperature (ex_long_df ! 0)"
    by (intro exI conjI)
  with gap r w t show ?thesis by simp
qed

text \<open>
  C7. The profile of a key is the arithmetic mean of the valid observations of the
  input data at that key, and no value at all when there is none. \<open>main\<close> builds it
  once from its input and hands this one profile to the imputation of every station,
  so no lookup sees a filled value. A position of a 3 to 24 hour gap whose key has no
  valid observation is left missing: the absent profile is not read as zero.
\<close>

theorem static_profile:
  "build_diurnal_profiles df var (st, m, h) =
     (let obs = List.map_filter (col var)
                  (filter (\<lambda>r. station r = st \<and> month r = m \<and> hour r = h) df)
      in if obs = [] then None else Some (sum_list obs / real (length obs)))
   \<and> (\<exists>results. main df = Inr results
         \<and> map Inr results =
             map (\<lambda>st. impute_station (filter (\<lambda>r. station r = st) df) (build_diurnal_profiles df))
               (sort (remdups (map station df))))
   \<and> (\<forall>dfs s l k.
         (s, l) \<in> set (find_gaps (missing_mask var dfs)) \<and> 3 \<le> l \<and> l \<le> 24 \<and> k < l
         \<and> group_values var (station (dfs ! 0), month (dfs ! (s + k)), hour (dfs ! (s + k))) df = []
         \<longrightarrow> (\<exists>df' ms. impute_station dfs (build_diurnal_profiles df) = Inr (df', ms)
                \<and> col var (df' ! (s + k)) = None))"
proof (intro conjI allI impI)
  show "build_diurnal_profiles df var (st, m, h) =
     (let obs = List.map_filter (col var)
                  (filter (\<lambda>r. station r = st \<and> month r = m \<and> hour r = h) df)
      in if obs = [] then None else Some (sum_list obs / real (length obs)))"
    by (simp add: build_diurnal_profiles_def mean_def group_values_def Let_def)
  show "\<exists>results. main df = Inr results
         \<and> map Inr results =
             map (\<lambda>st. impute_station (filter (\<lambda>r. station r = st) df) (build_diurnal_profiles df))
               (sort (remdups (map station df)))"
    by (rule main_char)
next
  fix dfs s l k
  assume a: "(s, l) \<in> set (find_gaps (missing_mask var dfs)) \<and> 3 \<le> l \<and> l \<le> 24 \<and> k < l
         \<and> group_values var (station (dfs ! 0), month (dfs ! (s + k)), hour (dfs ! (s + k))) df = []"
  let ?P = "build_diurnal_profiles df"
  from impute_station_char [of dfs ?P] obtain df' ms where run: "impute_station dfs ?P = Inr (df', ms)"
    by blast
  from a have "profile_at ?P var dfs (s + k) = None"
    by (simp add: profile_at_def build_diurnal_profiles_def mean_def)
  with a have "col var (df' ! (s + k)) = None"
    by (simp add: strategy_b_cell [OF run, of s l var k])
  with run show "\<exists>df' ms. impute_station dfs ?P = Inr (df', ms) \<and> col var (df' ! (s + k)) = None"
    by blast
qed

text \<open>
  Witness for C7, on \<open>ex_partial_df\<close>: the profile of hour 0 is the mean of 20 and
  22, hour 2 has no valid temperature and so no profile, and the position of the
  three-hour gap that falls on hour 2 is left missing.
\<close>

theorem static_profile_witness:
  "build_diurnal_profiles ex_partial_df Temperature (''S24'', 1, 0) = Some 21
   \<and> build_diurnal_profiles ex_partial_df Temperature (''S24'', 1, 2) = None
   \<and> (1, 3) \<in> set (find_gaps (missing_mask Temperature ex_partial_df))
   \<and> group_values Temperature
        (station (ex_partial_df ! 0), month (ex_partial_df ! (1 + 1)), hour (ex_partial_df ! (1 + 1)))
        ex_partial_df = []
   \<and> (\<exists>df' ms. impute_station ex_partial_df (build_diurnal_profiles ex_partial_df) = Inr (df', ms)
         \<and> col Temperature (df' ! (1 + 1)) = None)"
proof -
  have p0: "build_diurnal_profiles ex_partial_df Temperature (''S24'', 1, 0) = Some 21" by code_simp
  have p2: "build_diurnal_profiles ex_partial_df Temperature (''S24'', 1, 2) = None" by code_simp
  have gap: "(1, 3) \<in> set (find_gaps (missing_mask Temperature ex_partial_df))" by code_simp
  have g: "group_values Temperature
        (station (ex_partial_df ! 0), month (ex_partial_df ! (1 + 1)), hour (ex_partial_df ! (1 + 1)))
        ex_partial_df = []" by code_simp
  from static_profile [of ex_partial_df Temperature "''S24''" 1 0]
  have "\<forall>dfs s l k.
         (s, l) \<in> set (find_gaps (missing_mask Temperature dfs)) \<and> 3 \<le> l \<and> l \<le> 24 \<and> k < l
         \<and> group_values Temperature (station (dfs ! 0), month (dfs ! (s + k)), hour (dfs ! (s + k)))
              ex_partial_df = []
         \<longrightarrow> (\<exists>df' ms. impute_station dfs (build_diurnal_profiles ex_partial_df) = Inr (df', ms)
                \<and> col Temperature (df' ! (s + k)) = None)"
    by blast
  from this [rule_format, of 1 3 ex_partial_df 1] gap g
  have "\<exists>df' ms. impute_station ex_partial_df (build_diurnal_profiles ex_partial_df) = Inr (df', ms)
         \<and> col Temperature (df' ! (1 + 1)) = None"
    by simp
  with p0 p2 gap g show ?thesis by (intro conjI)
qed






text \<open>
  C10 fails as stated: there is no input for which a gap reads, at one of its two
  boundary cells, anything but the cell of the frame as it was before the first gap
  of the variable was filled; a boundary cell lies in no earlier gap.
\<close>

theorem no_feed_forward: "\<not> (\<exists>P var df. feeds_forward P var df)"
proof
  assume "\<exists>P var df. feeds_forward P var df"
  then obtain P var df gs1 s l gs2 dfc msc where
    split: "find_gaps (missing_mask var df) = gs1 @ (s, l) # gs2"
    and run: "impute_gaps var P (length df) gs1 (df, replicate (length df) []) = Inr (dfc, msc)"
    and bad: "(0 < s \<and> (col var (dfc ! (s - 1)) \<noteq> col var (df ! (s - 1)) \<or> gap_of gs1 (s - 1) \<noteq> None))
           \<or> (s + l < length df
               \<and> (col var (dfc ! (s + l)) \<noteq> col var (df ! (s + l)) \<or> gap_of gs1 (s + l) \<noteq> None))"
    unfolding feeds_forward_def by blast
  from boundary_untouched [OF split, of "replicate (length df) []" P] run
  have "0 < s \<longrightarrow> gap_of gs1 (s - 1) = None \<and> dfc ! (s - 1) = df ! (s - 1)"
    and "s + l < length df \<longrightarrow> gap_of gs1 (s + l) = None \<and> dfc ! (s + l) = df ! (s + l)"
    by auto
  with bad show False by auto
qed

text \<open>
  C10 (as amended). The gaps of a variable are processed from left to right and each
  fill changes the working frame before the next gap is handled, but the gaps are the
  maximal runs found before the first fill: when the turn of a gap comes, the cells
  just before and just after it still hold the values of the input frame, and these
  are valid observations. No boundary value is a value imputed earlier in the run.
\<close>

theorem boundary_values_are_original:
  assumes "IMPUTE_VARS = vs1 @ var # vs2"
    and "find_gaps (missing_mask var df) = gs1 @ (s, l) # gs2"
  shows "\<exists>dfv msv dfc msc.
           impute_vars P (length df) vs1 (df, replicate (length df) []) = Inr (dfv, msv)
         \<and> impute_gaps var P (length df) gs1 (dfv, msv) = Inr (dfc, msc)
         \<and> impute_var P (length df) var (dfv, msv) =
             (case impute_gap var P (length df) (s, l) (dfc, msc) of
                Inl e \<Rightarrow> Inl e
              | Inr st \<Rightarrow> impute_gaps var P (length df) gs2 st)
         \<and> (0 < s \<longrightarrow> iloc dfc var (s - 1) = Inr (col var (df ! (s - 1)))
                     \<and> col var (df ! (s - 1)) \<noteq> None)
         \<and> (s + l < length df \<longrightarrow> iloc dfc var (s + l) = Inr (col var (df ! (s + l)))
                     \<and> col var (df ! (s + l)) \<noteq> None)"
proof -
  from before_var_turn [OF assms(1), of P df]
  obtain dfv msv where v: "impute_vars P (length df) vs1 (df, replicate (length df) []) = Inr (dfv, msv)"
    and len: "length dfv = length df" "length msv = length df"
    and sf: "same_frame var {} dfv df"
    by blast
  have m: "missing_mask var dfv = missing_mask var df" using sf by (rule missing_mask_cong)
  with assms(2) have split: "find_gaps (missing_mask var dfv) = gs1 @ (s, l) # gs2" by simp
  from len have lms: "length msv = length dfv" by simp
  from boundary_untouched [OF split lms, of P] len
  obtain dfc msc where g: "impute_gaps var P (length df) gs1 (dfv, msv) = Inr (dfc, msc)"
    and lc: "length dfc = length df"
    and b: "0 < s \<longrightarrow> dfc ! (s - 1) = dfv ! (s - 1) \<and> col var (dfv ! (s - 1)) \<noteq> None"
    and a: "s + l < length df \<longrightarrow> dfc ! (s + l) = dfv ! (s + l) \<and> col var (dfv ! (s + l)) \<noteq> None"
    by auto
  have same: "col var (dfv ! i) = col var (df ! i)" if "i < length df" for i
    using sf that by (simp add: same_frame_def)
  have turn: "impute_var P (length df) var (dfv, msv) =
             (case impute_gap var P (length df) (s, l) (dfc, msc) of
                Inl e \<Rightarrow> Inl e
              | Inr st \<Rightarrow> impute_gaps var P (length df) gs2 st)"
    using split g by (simp add: impute_var_def missing_mask_def [symmetric] impute_gaps_append)
  have before: "0 < s \<longrightarrow> iloc dfc var (s - 1) = Inr (col var (df ! (s - 1)))
                     \<and> col var (df ! (s - 1)) \<noteq> None"
  proof
    assume s: "0 < s"
    from find_gaps_wf [of s l "missing_mask var df"] assms(2) have "s + l \<le> length df"
      by (simp add: missing_mask_def)
    with s have rng: "s - 1 < length df" by simp
    with s b lc same [OF rng] show "iloc dfc var (s - 1) = Inr (col var (df ! (s - 1)))
                     \<and> col var (df ! (s - 1)) \<noteq> None"
      by (simp add: iloc_def)
  qed
  have after: "s + l < length df \<longrightarrow> iloc dfc var (s + l) = Inr (col var (df ! (s + l)))
                     \<and> col var (df ! (s + l)) \<noteq> None"
  proof
    assume rng: "s + l < length df"
    with a lc same [OF rng] show "iloc dfc var (s + l) = Inr (col var (df ! (s + l)))
                     \<and> col var (df ! (s + l)) \<noteq> None"
      by (simp add: iloc_def)
  qed
  from v g turn before after show ?thesis by (intro exI conjI)
qed

text \<open>
  Witness for C10, on \<open>ex_partial_df\<close> with its own profile: the temperature gaps
  are the hours 1 to 3 and the hour 7. When the turn of the second comes the first
  has been filled (the cell of hour 1 holds 21), and the cells read at its boundaries,
  hours 6 and 8, hold the observed 22 and 23.
\<close>

theorem boundary_values_are_original_witness:
  "IMPUTE_VARS = [] @ Temperature # [Rh, Wind_speed]
   \<and> find_gaps (missing_mask Temperature ex_partial_df) = [(1, 3)] @ (7, 1) # []
   \<and> (\<exists>dfc msc.
         impute_gaps Temperature (build_diurnal_profiles ex_partial_df) (length ex_partial_df)
           [(1, 3)] (ex_partial_df, replicate (length ex_partial_df) []) = Inr (dfc, msc)
         \<and> col Temperature (dfc ! 1) = Some 21 \<and> col Temperature (ex_partial_df ! 1) = None
         \<and> iloc dfc Temperature (7 - 1) = Inr (Some 22)
         \<and> iloc dfc Temperature (7 + 1) = Inr (Some 23))"
proof -
  let ?P = "build_diurnal_profiles ex_partial_df"
  have vars: "IMPUTE_VARS = [] @ Temperature # [Rh, Wind_speed]" by (simp add: IMPUTE_VARS_def)
  have split: "find_gaps (missing_mask Temperature ex_partial_df) = [(1, 3)] @ (7, 1) # []"
    by code_simp
  have n: "length ex_partial_df = 10" by code_simp
  have o6: "col Temperature (ex_partial_df ! (7 - 1)) = Some 22" by code_simp
  have o8: "col Temperature (ex_partial_df ! (7 + 1)) = Some 23" by code_simp
  have o1: "col Temperature (ex_partial_df ! 1) = None" by code_simp
  have first: "impute_gaps Temperature ?P (length ex_partial_df) [(1, 3)]
                 (ex_partial_df, replicate (length ex_partial_df) []) =
               Inr (ex_partial_df[1 := (ex_partial_df ! 1)\<lparr>temperature := Some 21\<rparr>,
                                  3 := (ex_partial_df ! 3)\<lparr>temperature := Some 24\<rparr>],
                    [[], ''temperature:B'', ''temperature:B'', ''temperature:B'', [], [], [], [], [], []])"
    by code_simp
  from boundary_values_are_original [OF vars split, of ?P]
  obtain dfc msc where
    g: "impute_gaps Temperature ?P (length ex_partial_df) [(1, 3)]
          (ex_partial_df, replicate (length ex_partial_df) []) = Inr (dfc, msc)"
    and b: "0 < (7::nat) \<longrightarrow> iloc dfc Temperature (7 - 1) = Inr (col Temperature (ex_partial_df ! (7 - 1)))"
    and a: "7 + 1 < length ex_partial_df
              \<longrightarrow> iloc dfc Temperature (7 + 1) = Inr (col Temperature (ex_partial_df ! (7 + 1)))"
    by auto
  from b o6 have r6: "iloc dfc Temperature (7 - 1) = Inr (Some 22)" by simp
  from a o8 n have r8: "iloc dfc Temperature (7 + 1) = Inr (Some 23)" by simp
  from g first have "dfc = ex_partial_df[1 := (ex_partial_df ! 1)\<lparr>temperature := Some 21\<rparr>,
                                  3 := (ex_partial_df ! 3)\<lparr>temperature := Some 24\<rparr>]"
    by simp
  then have f1: "col Temperature (dfc ! 1) = Some 21" by (simp add: n)
  from g f1 o1 r6 r8
  have "\<exists>dfc msc.
         impute_gaps Temperature ?P (length ex_partial_df)
           [(1, 3)] (ex_partial_df, replicate (length ex_partial_df) []) = Inr (dfc, msc)
         \<and> col Temperature (dfc ! 1) = Some 21 \<and> col Temperature (ex_partial_df ! 1) = None
         \<and> iloc dfc Temperature (7 - 1) = Inr (Some 22)
         \<and> iloc dfc Temperature (7 + 1) = Inr (Some 23)"
    by (intro exI conjI)
  with vars split show ?thesis by (intro conjI)
qed

end
